theory Spec2Isabelle
  imports Main "HOL-Library.Word"
begin

unbundle bit_operations_syntax

section \<open>The KCP transport (lib/kcp.go)\<close>

subsection \<open>Bytes, frame kinds and the big-endian length field\<close>

type_synonym byte = "8 word"

definition kcpDataPacket :: byte where "kcpDataPacket = 0"
definition kcpClose :: byte where "kcpClose = 1"
definition kcpKeepAlive :: byte where "kcpKeepAlive = 2"

text \<open>\<^verbatim>\<open>binary.BigEndian.Uint32\<close> on a 4-byte array and \<^verbatim>\<open>binary.BigEndian.PutUint32\<close>.\<close>

definition Uint32 :: "byte list \<Rightarrow> 32 word" where
  "Uint32 h = push_bit 24 (ucast (h ! 0)) OR push_bit 16 (ucast (h ! 1))
              OR push_bit 8 (ucast (h ! 2)) OR ucast (h ! 3)"

definition PutUint32 :: "32 word \<Rightarrow> byte list" where
  "PutUint32 v = [ucast (drop_bit 24 v), ucast (drop_bit 16 v), ucast (drop_bit 8 v), ucast v]"

text \<open>Go's \<^verbatim>\<open>copy(dst, src)\<close>: the first \<open>min (len dst) (len src)\<close> elements of \<open>dst\<close>
  are overwritten, the rest stay.\<close>

definition go_copy :: "'a list \<Rightarrow> 'a list \<Rightarrow> 'a list" where
  "go_copy dst src = take (length dst) src @ drop (length src) dst"

datatype kcp_error =
    EOF                     \<comment> \<open>\<^verbatim>\<open>io.EOF\<close>\<close>
  | SessionError            \<comment> \<open>a non-nil error of the underlying \<^verbatim>\<open>kcp.UDPSession\<close>\<close>
  | InvalidHeader byte      \<comment> \<open>\<^verbatim>\<open>invalid KCP header %x\<close>\<close>
  | SendTooLarge            \<comment> \<open>\<^verbatim>\<open>send buffer size exceeds limitation\<close>\<close>
  | GoPanic                 \<comment> \<open>a run-time panic (index or slice bounds out of range)\<close>

subsection \<open>The underlying session\<close>

text \<open>
  \<^verbatim>\<open>kcp.UDPSession\<close> is a library type. It is used in stream mode as an
  \<^verbatim>\<open>io.Reader\<close>/\<^verbatim>\<open>io.Writer\<close>: a read delivers at least one and at most \<open>len(b)\<close>
  bytes, and never more than the segment at the head of the receive queue holds; a
  successful write accepts the whole buffer and returns its length. The receive queue is
  the list of segments that have arrived and are not read yet; a read on an empty
  queue stands for a session read that ends with an error (deadline, closed session).
\<close>

record UDPSession =
  rcv :: "byte list list"     \<comment> \<open>segments received, oldest first\<close>
  snt :: "byte list list"     \<comment> \<open>buffers accepted by \<^verbatim>\<open>Write\<close>, oldest first\<close>
  wr_ok :: bool               \<comment> \<open>the session accepts writes (open, deadline not passed)\<close>
  close_scheduled :: bool     \<comment> \<open>a delayed \<^verbatim>\<open>UDPSession.Close\<close> has been started\<close>

fun seg_read :: "nat \<Rightarrow> byte list list \<Rightarrow> (byte list \<times> byte list list) option" where
  "seg_read k [] = None"
| "seg_read k ([] # r) = seg_read k r"
| "seg_read k (s # r) = Some (take k s, if length s \<le> k then r else drop k s # r)"

definition sess_Read :: "UDPSession \<Rightarrow> nat \<Rightarrow> (byte list \<times> UDPSession) option" where
  "sess_Read s k = (case seg_read k (rcv s) of
      None \<Rightarrow> None
    | Some (bs, r) \<Rightarrow> Some (bs, s\<lparr>rcv := r\<rparr>))"

definition sess_Write :: "UDPSession \<Rightarrow> byte list \<Rightarrow> (kcp_error + nat) \<times> UDPSession" where
  "sess_Write s buf = (if wr_ok s then (Inr (length buf), s\<lparr>snt := snt s @ [buf]\<rparr>)
                       else (Inl SessionError, s))"

subsection \<open>The connection wrapper\<close>

record kcpConnWrapper =
  sess :: UDPSession
  rdDataLeft :: "32 word"
  lastSend :: int
  lastReadStart :: int
  lastWriteStart :: int

text \<open>
  \<^verbatim>\<open>kcpConnWrapper.read\<close>: \<open>lastReadStart\<close> holds the start time during the session read
  and is reset to 0 by the deferred store, so it is 0 whenever \<open>read\<close> has returned.
\<close>

definition read :: "kcpConnWrapper \<Rightarrow> nat \<Rightarrow> (kcp_error + byte list) \<times> kcpConnWrapper" where
  "read c k = (case sess_Read (sess c) k of
      None \<Rightarrow> (Inl SessionError, c\<lparr>lastReadStart := 0\<rparr>)
    | Some (bs, s) \<Rightarrow> (Inr bs, c\<lparr>sess := s, lastReadStart := 0\<rparr>))"

text \<open>The measure for the header loop: every byte and every segment still queued.\<close>

definition queued :: "byte list list \<Rightarrow> nat" where
  "queued r = sum_list (map (\<lambda>s. Suc (length s)) r)"

lemma seg_read_queued:
  "seg_read k r = Some (bs, r') \<Longrightarrow> 0 < k \<Longrightarrow> queued r' < queued r"
  by (induction k r rule: seg_read.induct) (auto simp: queued_def split: if_splits)

lemma seg_read_queued_le:
  "seg_read k r = Some (bs, r') \<Longrightarrow> queued r' \<le> queued r"
  by (induction k r rule: seg_read.induct) (auto simp: queued_def split: if_splits)

lemma read_queued:
  "read c k = (Inr bs, c') \<Longrightarrow> 0 < k \<Longrightarrow> queued (rcv (sess c')) < queued (rcv (sess c))"
  by (auto simp: read_def sess_Read_def split: option.splits dest: seg_read_queued)

lemma read_queued_le:
  "read c k = (Inr bs, c') \<Longrightarrow> queued (rcv (sess c')) \<le> queued (rcv (sess c))"
  by (auto simp: read_def sess_Read_def split: option.splits dest: seg_read_queued_le)

text \<open>
  The loop \<^verbatim>\<open>for c.rdDataLeft == 0 { ... }\<close> of \<^verbatim>\<open>Read\<close>. \<open>Inl\<close> is a \<^verbatim>\<open>return\<close> from
  inside the loop (always with zero bytes), \<open>Inr\<close> is the state at the loop's exit.
  The array \<^verbatim>\<open>header\<close> is zero-initialised; a read of \<open>n\<close> bytes overwrites its first
  \<open>n\<close> elements only.
\<close>

function Read_loop :: "kcpConnWrapper \<Rightarrow> kcp_error \<times> kcpConnWrapper + kcpConnWrapper" where
  "Read_loop c =
     (if rdDataLeft c \<noteq> 0 then Inr c
      else case read c 1 of
        (Inl e, c1) \<Rightarrow> Inl (e, c1)
      | (Inr h1, c1) \<Rightarrow>
          let header = go_copy [0, 0, 0, 0] h1 in
          if header ! 0 = kcpClose then Inl (EOF, c1\<lparr>lastSend := 0\<rparr>)
          else if header ! 0 = kcpDataPacket then
            (case read c1 4 of
               (Inl e, c2) \<Rightarrow> Inl (e, c2)
             | (Inr h4, c2) \<Rightarrow> Read_loop (c2\<lparr>rdDataLeft := Uint32 (go_copy header h4)\<rparr>))
          else if header ! 0 = kcpKeepAlive then Read_loop c1
          else Inl (InvalidHeader (header ! 0), c1))"
  by pat_completeness auto
termination
proof (relation "measure (\<lambda>c. queued (rcv (sess c)))")
  show "wf (measure (\<lambda>c. queued (rcv (sess c))))" by simp
next
  fix c x c1 h1 header y c2 h4
  assume "(x, c1) = read c 1" "x = Inr h1" "(y, c2) = read c1 4" "y = Inr h4"
  then show "(c2\<lparr>rdDataLeft := Uint32 (go_copy header h4)\<rparr>, c) \<in> measure (\<lambda>c. queued (rcv (sess c)))"
    using read_queued [of c 1 h1 c1] read_queued_le [of c1 4 h4 c2] by simp
next
  fix c x c1 h1
  assume "(x, c1) = read c 1" "x = Inr h1"
  then show "(c1, c) \<in> measure (\<lambda>c. queued (rcv (sess c)))"
    using read_queued [of c 1 h1 c1] by simp
qed

declare Read_loop.simps [simp del]

text \<open>
  \<^verbatim>\<open>Read(b)\<close> with \<open>len(b) = lenb\<close>. The result carries the bytes stored into \<open>b\<close>; the
  returned count is their number. \<^verbatim>\<open>int\<close> has 64 bits (the comparison with
  \<^verbatim>\<open>0xffffffff\<close> in \<^verbatim>\<open>Write\<close> does not compile otherwise), so \<^verbatim>\<open>int(c.rdDataLeft)\<close> is
  \<open>unat\<close>.
\<close>

definition Read :: "kcpConnWrapper \<Rightarrow> nat \<Rightarrow> (kcp_error + byte list) \<times> kcpConnWrapper" where
  "Read c lenb = (case Read_loop c of
      Inl (e, c') \<Rightarrow> (Inl e, c')
    | Inr c' \<Rightarrow>
        let k = (if lenb > unat (rdDataLeft c') then unat (rdDataLeft c') else lenb) in
        (case read c' k of
           (Inl e, c'') \<Rightarrow> (Inl e, c'')
         | (Inr bs, c'') \<Rightarrow> (Inr bs, c''\<lparr>rdDataLeft := rdDataLeft c'' - of_nat (length bs)\<rparr>)))"

text \<open>
  Modelled from the spec: the buffer pool \<^verbatim>\<open>GlobalBufPool\<close> of package \<^verbatim>\<open>lib\<close>, which
  \<^verbatim>\<open>kcp.go\<close> and \<^verbatim>\<open>app.go\<close> only call. \<^verbatim>\<open>Get(size)\<close> returns a buffer of \<open>size\<close> bytes
  ("reusable byte buffers sized by caller"). The contents of a reused buffer are not
  specified; \<^verbatim>\<open>Write\<close> overwrites every element before it uses the buffer.
\<close>

definition BufPool_Get :: "nat \<Rightarrow> byte list" where
  "BufPool_Get sz = replicate sz 0"

text \<open>
  \<^verbatim>\<open>Write(b)\<close> at time \<open>now\<close> (\<^verbatim>\<open>time.Now().UnixNano()\<close>). \<^verbatim>\<open>n + 5\<close> is computed on
  \<^verbatim>\<open>uint32\<close> and wraps around. With a buffer shorter than 5 bytes, \<^verbatim>\<open>buf[0]\<close> (empty
  buffer) or \<^verbatim>\<open>buf[5:]\<close> panics before any field is stored. The deferred store resets
  \<open>lastWriteStart\<close>.
\<close>

definition Write :: "kcpConnWrapper \<Rightarrow> byte list \<Rightarrow> int \<Rightarrow> (kcp_error + nat) \<times> kcpConnWrapper" where
  "Write c b now =
     (if length b > 0xffffffff then (Inl SendTooLarge, c)
      else
        let n = (of_nat (length b) :: 32 word);
            buf0 = BufPool_Get (unat (n + 5))
        in if length buf0 < 5 then (Inl GoPanic, c)
           else
             let buf1 = buf0[0 := kcpDataPacket];
                 buf2 = take 1 buf1 @ go_copy (take 4 (drop 1 buf1)) (PutUint32 n) @ drop 5 buf1;
                 buf3 = take 5 buf2 @ go_copy (drop 5 buf2) b;
                 c1 = c\<lparr>lastSend := now, lastWriteStart := now\<rparr>;
                 (r, s) = sess_Write (sess c1) buf3
             in (r, c1\<lparr>sess := s, lastWriteStart := 0\<rparr>))"

text \<open>\<^verbatim>\<open>Close\<close>: the error of the close-frame write is dropped; the result is always nil.\<close>

definition Close :: "kcpConnWrapper \<Rightarrow> kcpConnWrapper" where
  "Close c =
     (let c1 = c\<lparr>lastSend := 0\<rparr>;
          (r, s) = sess_Write (sess c1) [kcpClose]
      in c1\<lparr>sess := s\<lparr>close_scheduled := True\<rparr>\<rparr>)"

definition sendKeepAlive :: "kcpConnWrapper \<Rightarrow> int \<Rightarrow> kcpConnWrapper" where
  "sendKeepAlive c now =
     (let c1 = c\<lparr>lastSend := now\<rparr>;
          (r, s) = sess_Write (sess c1) [kcpKeepAlive];
          c2 = c1\<lparr>sess := s\<rparr>
      in case r of Inl e \<Rightarrow> Close c2 | Inr n \<Rightarrow> c2)"

subsection \<open>The keep-alive manager\<close>

text \<open>
  The transport's list holds pointers to the connections; the connections themselves
  live in a store and are changed by their own \<^verbatim>\<open>Write\<close>, \<^verbatim>\<open>Close\<close> and
  \<^verbatim>\<open>sendKeepAlive\<close>. Times are \<^verbatim>\<open>int64\<close> nanoseconds, far from overflow.
\<close>

type_synonym conn_ptr = nat

record KCPTransport =
  keepAliveInterval :: int
  keepAliveTimeout :: int
  conns :: "conn_ptr list option"     \<comment> \<open>\<^verbatim>\<open>nil\<close> when keep-alive is not configured\<close>
  heap :: "conn_ptr \<Rightarrow> kcpConnWrapper"

datatype spawned = GoClose conn_ptr | GoSendKeepAlive conn_ptr

text \<open>The body of the inner loop of \<^verbatim>\<open>runKeepAliveManager\<close> for one list element:
  whether the element stays, and the goroutine started for it.\<close>

definition scan_conn :: "int \<Rightarrow> int \<Rightarrow> int \<Rightarrow> conn_ptr \<Rightarrow> kcpConnWrapper \<Rightarrow> bool \<times> spawned list" where
  "scan_conn timeout interval now p conn =
     (if lastSend conn = 0 then (False, [])
      else if lastReadStart conn > 0 \<and> now - lastReadStart conn > timeout then (False, [GoClose p])
      else if lastWriteStart conn > 0 \<and> now - lastWriteStart conn > timeout then (False, [GoClose p])
      else if now - lastSend conn > interval then (True, [GoSendKeepAlive p])
      else (True, []))"

fun scan :: "int \<Rightarrow> int \<Rightarrow> int \<Rightarrow> (conn_ptr \<Rightarrow> kcpConnWrapper) \<Rightarrow> conn_ptr list
             \<Rightarrow> conn_ptr list \<times> spawned list" where
  "scan timeout interval now h [] = ([], [])"
| "scan timeout interval now h (p # ps) =
     (let (keep, g) = scan_conn timeout interval now p (h p);
          (ps', gs) = scan timeout interval now h ps
      in (if keep then p # ps' else ps', g @ gs))"

text \<open>One tick of the manager at time \<open>now\<close>: the new list and the goroutines started.\<close>

definition tick :: "KCPTransport \<Rightarrow> int \<Rightarrow> KCPTransport \<times> spawned list" where
  "tick t now =
     (case conns t of
        None \<Rightarrow> (t, [])
      | Some l \<Rightarrow>
          let (ps, gs) = scan (keepAliveTimeout t) (keepAliveInterval t) now (heap t) l
          in (t\<lparr>conns := Some ps\<rparr>, gs))"

text \<open>\<^verbatim>\<open>wrapKCPConn\<close>: \<open>p\<close> is the address of the new wrapper, \<open>now\<close> the current time.\<close>

definition wrapKCPConn :: "KCPTransport \<Rightarrow> conn_ptr \<Rightarrow> UDPSession \<Rightarrow> int \<Rightarrow> KCPTransport" where
  "wrapKCPConn t p kcpConn now =
     (let wrapped = \<lparr>sess = kcpConn, rdDataLeft = 0, lastSend = now,
                      lastReadStart = 0, lastWriteStart = 0\<rparr>;
          t1 = t\<lparr>heap := (heap t)(p := wrapped)\<rparr>
      in case conns t1 of None \<Rightarrow> t1 | Some l \<Rightarrow> t1\<lparr>conns := Some (l @ [p])\<rparr>)"

text \<open>Calls on a connection through its pointer, as the application and the started
  goroutines make them.\<close>

definition conn_Close :: "KCPTransport \<Rightarrow> conn_ptr \<Rightarrow> KCPTransport" where
  "conn_Close t p = t\<lparr>heap := (heap t)(p := Close (heap t p))\<rparr>"

definition conn_Write :: "KCPTransport \<Rightarrow> conn_ptr \<Rightarrow> byte list \<Rightarrow> int \<Rightarrow> (kcp_error + nat) \<times> KCPTransport" where
  "conn_Write t p b now =
     (let (r, c) = Write (heap t p) b now in (r, t\<lparr>heap := (heap t)(p := c)\<rparr>))"

definition conn_sendKeepAlive :: "KCPTransport \<Rightarrow> conn_ptr \<Rightarrow> int \<Rightarrow> KCPTransport" where
  "conn_sendKeepAlive t p now = t\<lparr>heap := (heap t)(p := sendKeepAlive (heap t p) now)\<rparr>"

subsection \<open>Sample sessions and connections\<close>

text \<open>An open session whose receive queue holds the given segments, and the wrapper
  \<^verbatim>\<open>wrapKCPConn\<close> builds around a session at time \<open>now\<close>.\<close>

definition open_session :: "byte list list \<Rightarrow> UDPSession" where
  "open_session segs = \<lparr>rcv = segs, snt = [], wr_ok = True, close_scheduled = False\<rparr>"

definition new_conn :: "UDPSession \<Rightarrow> int \<Rightarrow> kcpConnWrapper" where
  "new_conn s now = \<lparr>sess = s, rdDataLeft = 0, lastSend = now,
                     lastReadStart = 0, lastWriteStart = 0\<rparr>"

definition keepalive_transport :: KCPTransport where
  "keepalive_transport = \<lparr>keepAliveInterval = 100, keepAliveTimeout = 1000,
                           conns = Some [], heap = (\<lambda>p. new_conn (open_session []) 1)\<rparr>"

text \<open>
  A caller that reads a message of \<open>m\<close> bytes with successive calls of \<^verbatim>\<open>Read\<close>, each with
  a buffer of at most \<open>lenb\<close> bytes, as \<^verbatim>\<open>io.ReadFull\<close> does. It stops at the first error,
  and when a \<^verbatim>\<open>Read\<close> returns no byte.
\<close>

function ReadFull :: "kcpConnWrapper \<Rightarrow> nat \<Rightarrow> nat \<Rightarrow> (kcp_error + byte list) \<times> kcpConnWrapper" where
  "ReadFull c lenb m =
     (if m = 0 then (Inr [], c)
      else case Read c (min lenb m) of
        (Inl e, c') \<Rightarrow> (Inl e, c')
      | (Inr bs, c') \<Rightarrow>
          if bs = [] then (Inr [], c')
          else (case ReadFull c' lenb (m - length bs) of
                  (Inl e, c'') \<Rightarrow> (Inl e, c'')
                | (Inr rest, c'') \<Rightarrow> (Inr (bs @ rest), c'')))"
  by pat_completeness auto
termination
  by (relation "measure (\<lambda>(c, lenb, m). m)") auto

declare ReadFull.simps [simp del]

subsection \<open>Dial\<close>

text \<open>
  \<^verbatim>\<open>Dial\<close> starts a helper goroutine that runs the library's dial and sends the result on
  \<^verbatim>\<open>resultCh\<close>, a channel with a buffer of one element; the caller waits in a \<^verbatim>\<open>select\<close>
  on the channel and on \<^verbatim>\<open>ctx.Done()\<close>. The two goroutines and the context are a
  transition system: a step is one action of the helper, of the caller, or the
  cancellation of the context. A send needs room in the buffer; a \<^verbatim>\<open>select\<close> case can
  fire when it is ready.
\<close>

datatype ctx_error = Canceled | DeadlineExceeded

datatype dial_result = DialConn conn_ptr | DialFailed

datatype dial_return = ReturnConn conn_ptr | ReturnDialError | ReturnCtxError ctx_error

datatype helper_pc = Dialing | Sending dial_result | Finished

record dial_state =
  helper :: helper_pc
  resultCh :: "dial_result list"
  ctx_done :: "ctx_error option"
  caller :: "dial_return option"      \<comment> \<open>\<open>None\<close>: still in the \<^verbatim>\<open>select\<close>\<close>

definition resultCh_cap :: nat where "resultCh_cap = 1"

definition return_of :: "dial_result \<Rightarrow> dial_return" where
  "return_of r = (case r of DialConn p \<Rightarrow> ReturnConn p | DialFailed \<Rightarrow> ReturnDialError)"

inductive dial_step :: "dial_state \<Rightarrow> dial_state \<Rightarrow> bool" where
  dial_done: "helper s = Dialing \<Longrightarrow> dial_step s (s\<lparr>helper := Sending r\<rparr>)"
    \<comment> \<open>\<^verbatim>\<open>kcp.DialWithOptions\<close> returns, with a session (wrapped) or an error\<close>
| send: "helper s = Sending r \<Longrightarrow> length (resultCh s) < resultCh_cap \<Longrightarrow>
         dial_step s (s\<lparr>resultCh := resultCh s @ [r], helper := Finished\<rparr>)"
    \<comment> \<open>\<^verbatim>\<open>resultCh <- result{...}\<close>\<close>
| cancel: "ctx_done s = None \<Longrightarrow> dial_step s (s\<lparr>ctx_done := Some e\<rparr>)"
    \<comment> \<open>the context is cancelled, or its deadline passes\<close>
| select_result: "caller s = None \<Longrightarrow> resultCh s = r # rest \<Longrightarrow>
         dial_step s (s\<lparr>resultCh := rest, caller := Some (return_of r)\<rparr>)"
    \<comment> \<open>\<^verbatim>\<open>case rst := <-resultCh\<close>\<close>
| select_ctx: "caller s = None \<Longrightarrow> ctx_done s = Some e \<Longrightarrow>
         dial_step s (s\<lparr>caller := Some (ReturnCtxError e)\<rparr>)"
    \<comment> \<open>\<^verbatim>\<open>case <-ctx.Done()\<close>\<close>

text \<open>The state in which \<^verbatim>\<open>Dial\<close> reaches its \<^verbatim>\<open>select\<close>; the context may be done already.\<close>

definition dial_init :: "ctx_error option \<Rightarrow> dial_state" where
  "dial_init cx = \<lparr>helper = Dialing, resultCh = [], ctx_done = cx, caller = None\<rparr>"

inductive dial_reach :: "ctx_error option \<Rightarrow> dial_state \<Rightarrow> bool" where
  start: "dial_reach cx (dial_init cx)"
| step: "dial_reach cx s \<Longrightarrow> dial_step s s' \<Longrightarrow> dial_reach cx s'"

section \<open>The request dispatcher and the relay (app.go)\<close>

subsection \<open>Collaborators\<close>

text \<open>
  Modelled from the spec: the types of package \<^verbatim>\<open>lib\<close> that \<^verbatim>\<open>app.go\<close> only uses
  (addresses, proxy errors, the rule matcher, proxy clients). An address is one of the three
  variants the dispatcher knows or some other implementation of the interface; a
  \<^verbatim>\<open>ProxyError\<close> is a cause with a kind; the rule matcher is two pure lookups that return
  the matched rule's name and its upstreams; \<^verbatim>\<open>ProxyClient.Request\<close> returns an error or
  the upstream connection with the bound address.
\<close>

datatype Address =
    TCP4Addr "nat list" nat
  | TCP6Addr "nat list" nat
  | DomainNameAddr string nat
  | OtherAddr string

datatype ProxyErrorType =
    ProxyGeneralErr | ProxyNotAllowed | ProxyNetUnreachable | ProxyHostUnreachable
  | ProxyConnRefused | ProxyTTLExpired | ProxyCmdUnsupported | ProxyAddrUnsupported
  | ProxyAuthRequired | ProxyTimeout

record ProxyError =
  Error :: "string option"
  ErrType :: ProxyErrorType

record RuleMatcher =
  MatchIP :: "nat list \<Rightarrow> string \<times> string list"
  MatchDomain :: "string \<Rightarrow> string \<times> string list"

type_synonym ProxyClient = "Address \<Rightarrow> ProxyError + (string \<times> Address)"

record Thestral =
  upstreams :: "string \<rightharpoonup> ProxyClient"
  upstreamNames :: "string list"
  ruleMatcher :: RuleMatcher

record ProxyRequest =
  TargetAddr :: Address

text \<open>The calls \<^verbatim>\<open>processOneRequest\<close> makes on its collaborators, in program order.\<close>

datatype event =
    CallMatchIP "nat list"
  | CallMatchDomain string
  | CallFail ProxyError
  | CallSuccess Address
  | CallRequest string Address
  | CallAddError string
  | CallOpenTunnelMonitor string string string
  | CallDoRelay
  | Log string

datatype outcome = Returns | Panics

text \<open>\<^verbatim>\<open>rand.Intn(n)\<close> panics for \<open>n = 0\<close> and returns a number below \<open>n\<close> otherwise; \<open>rnd\<close> is
  the generator's draw.\<close>

definition Intn :: "nat \<Rightarrow> nat \<Rightarrow> nat option" where
  "Intn rnd n = (if n = 0 then None else Some (rnd mod n))"

subsection \<open>processOneRequest\<close>

text \<open>The type switch on the target address: the lookup made and its result, or
  \<open>None\<close> in the \<^verbatim>\<open>default\<close> case.\<close>

definition match_target :: "RuleMatcher \<Rightarrow> Address \<Rightarrow> (event \<times> string \<times> string list) option" where
  "match_target m addr = (case addr of
      TCP4Addr ip port \<Rightarrow> Some (CallMatchIP ip, MatchIP m ip)
    | TCP6Addr ip port \<Rightarrow> Some (CallMatchIP ip, MatchIP m ip)
    | DomainNameAddr d port \<Rightarrow> Some (CallMatchDomain d, MatchDomain m d)
    | OtherAddr x \<Rightarrow> None)"

text \<open>
  The second half of \<^verbatim>\<open>processOneRequest\<close>, from the random choice among the candidates
  on. A missing key of \<^verbatim>\<open>t.upstreams\<close> yields a nil interface, and the call of
  \<^verbatim>\<open>Request\<close> on it panics. The relay that follows a successful connect is the event
  \<open>CallDoRelay\<close>; it is modelled on its own below.
\<close>

definition select_and_connect ::
  "Thestral \<Rightarrow> ProxyRequest \<Rightarrow> string \<Rightarrow> nat \<Rightarrow> event \<Rightarrow> string \<Rightarrow> string list
   \<Rightarrow> event list \<times> outcome" where
  "select_and_connect t req dsName rnd lookup ruleName candidates =
     (case Intn rnd (length candidates) of
        None \<Rightarrow> ([lookup], Panics)
      | Some i \<Rightarrow>
          let selected = candidates ! i in
          (case upstreams t selected of
             None \<Rightarrow> ([lookup, Log ''upstream selected''], Panics)
           | Some upstream \<Rightarrow>
               (case upstream (TargetAddr req) of
                  Inl pErr \<Rightarrow>
                    ([lookup, Log ''upstream selected'',
                      CallRequest selected (TargetAddr req),
                      Log ''connection failed'', CallFail pErr, CallAddError selected],
                     Returns)
                | Inr (upConn, boundAddr) \<Rightarrow>
                    ([lookup, Log ''upstream selected'',
                      CallRequest selected (TargetAddr req),
                      Log ''connection established'', CallSuccess boundAddr,
                      CallOpenTunnelMonitor ruleName dsName selected, CallDoRelay],
                     Returns))))"

definition processOneRequest :: "Thestral \<Rightarrow> ProxyRequest \<Rightarrow> string \<Rightarrow> nat \<Rightarrow> event list \<times> outcome" where
  "processOneRequest t req dsName rnd =
     (case match_target (ruleMatcher t) (TargetAddr req) of
        None \<Rightarrow>
          ([Log ''unknown target address'',
            CallFail \<lparr>Error = None, ErrType = ProxyAddrUnsupported\<rparr>], Returns)
      | Some (lookup, ruleName, matched) \<Rightarrow>
          if ruleName = [] then
            select_and_connect t req dsName rnd lookup ruleName (upstreamNames t)
          else if length matched = 0 then
            ([lookup, Log ''request rejected by rule'',
              CallFail \<lparr>Error = None, ErrType = ProxyNotAllowed\<rparr>], Returns)
          else select_and_connect t req dsName rnd lookup ruleName matched)"

definition is_Success_or_Fail :: "event \<Rightarrow> bool" where
  "is_Success_or_Fail e = (case e of CallSuccess a \<Rightarrow> True | CallFail pe \<Rightarrow> True | _ \<Rightarrow> False)"

definition is_Request :: "event \<Rightarrow> bool" where
  "is_Request e = (case e of CallRequest u a \<Rightarrow> True | _ \<Rightarrow> False)"

definition is_Match :: "event \<Rightarrow> bool" where
  "is_Match e = (case e of CallMatchIP ip \<Rightarrow> True | CallMatchDomain d \<Rightarrow> True | _ \<Rightarrow> False)"

definition is_Success :: "event \<Rightarrow> bool" where
  "is_Success e = (case e of CallSuccess a \<Rightarrow> True | _ \<Rightarrow> False)"

definition is_OpenTunnelMonitor :: "event \<Rightarrow> bool" where
  "is_OpenTunnelMonitor e = (case e of CallOpenTunnelMonitor r d u \<Rightarrow> True | _ \<Rightarrow> False)"

definition is_AddError :: "event \<Rightarrow> bool" where
  "is_AddError e = (case e of CallAddError u \<Rightarrow> True | _ \<Rightarrow> False)"

text \<open>
  What \<^verbatim>\<open>NewThestralApp\<close> checks before it returns an application without an error:
  there is an upstream, every name in \<open>upstreamNames\<close> is a key of \<open>upstreams\<close>, and every
  upstream the rule set names is defined.
\<close>

definition app_ok :: "Thestral \<Rightarrow> bool" where
  "app_ok t \<longleftrightarrow> upstreamNames t \<noteq> [] \<and> set (upstreamNames t) \<subseteq> dom (upstreams t)
     \<and> (\<forall>ip. set (snd (MatchIP (ruleMatcher t) ip)) \<subseteq> dom (upstreams t))
     \<and> (\<forall>d. set (snd (MatchDomain (ruleMatcher t) d)) \<subseteq> dom (upstreams t))"

text \<open>A sample application: two upstreams, one that fails to connect and one that
  connects; IP targets are denied by the rule \<open>block\<close>, domain targets match no rule.\<close>

definition failing_upstream :: ProxyClient where
  "failing_upstream target = Inl \<lparr>Error = Some ''i/o timeout'', ErrType = ProxyTimeout\<rparr>"

definition sample_app :: Thestral where
  "sample_app = \<lparr>upstreams = [''u1'' \<mapsto> failing_upstream, ''u2'' \<mapsto> (\<lambda>target. Inr (''conn'', target))],
                 upstreamNames = [''u1'', ''u2''],
                 ruleMatcher = \<lparr>MatchIP = (\<lambda>ip. (''block'', [])), MatchDomain = (\<lambda>d. ([], []))\<rparr>\<rparr>"

subsection \<open>relayHalf\<close>

text \<open>
  The source and the destination of a relay half are an \<^verbatim>\<open>io.Reader\<close> and an
  \<^verbatim>\<open>io.Writer\<close>. A reader is the list of what it will deliver: each element is a block
  of data with the error that arrives with its last byte, if any (\<open>([], Some e)\<close> is a
  plain error return). A read with a buffer of \<open>cap\<close> bytes returns at most \<open>cap\<close> bytes
  of the first block. A reader with nothing left to deliver blocks for ever. A writer
  is the list of its answers to the coming writes, each the number of bytes it is
  ready to accept and the error it returns; when the list is used up it accepts
  everything.
\<close>

datatype io_error = io_EOF | ErrShortWrite | ReadError | WriteError

type_synonym reader = "(byte list \<times> io_error option) list"

record writer =
  written :: "byte list"
  answers :: "(nat \<times> io_error option) list"

fun src_Read :: "reader \<Rightarrow> nat \<Rightarrow> ((byte list \<times> io_error option) \<times> reader) option" where
  "src_Read [] cap = None"
| "src_Read ((bs, e) # rest) cap =
     (if length bs \<le> cap then Some ((bs, e), rest)
      else Some ((take cap bs, None), (drop cap bs, e) # rest))"

definition dst_Write :: "writer \<Rightarrow> byte list \<Rightarrow> (nat \<times> io_error option) \<times> writer" where
  "dst_Write w p = (case answers w of
      [] \<Rightarrow> ((length p, None), w\<lparr>written := written w @ p\<rparr>)
    | (m, e) # rest \<Rightarrow>
        ((min m (length p), e), w\<lparr>written := written w @ take (min m (length p)) p, answers := rest\<rparr>))"

definition relayBufferSize :: nat where "relayBufferSize = 32 * 1024"


record relay_result =
  n_bytes :: int                   \<comment> \<open>the result \<open>n\<close>\<close>
  err :: "io_error option"         \<comment> \<open>the result \<open>err\<close>; \<open>None\<close> is nil\<close>
  src_after :: reader
  dst_after :: writer
  reports :: "32 word list"        \<comment> \<open>the arguments of \<^verbatim>\<open>reportBytesTransfered\<close>, in order\<close>
  iterations :: nat                \<comment> \<open>the number of times the loop body was entered\<close>

definition pending :: "reader \<Rightarrow> nat" where
  "pending r = sum_list (map (\<lambda>(bs, e). Suc (length bs)) r)"

lemma src_Read_pending:
  "src_Read r cap = Some (x, r') \<Longrightarrow> 0 < cap \<Longrightarrow> pending r' < pending r"
  by (cases r) (auto simp: pending_def split: if_splits)

text \<open>The \<^verbatim>\<open>for\<close> loop of \<^verbatim>\<open>relayHalf\<close>, from the state at the head of an iteration;
  \<open>None\<close> when the source blocks for ever.\<close>

function relay_loop :: "reader \<Rightarrow> writer \<Rightarrow> int \<Rightarrow> 32 word list \<Rightarrow> nat \<Rightarrow> relay_result option" where
  "relay_loop src dst n reps k =
     (case src_Read src relayBufferSize of
        None \<Rightarrow> None
      | Some ((buf, rerr), src') \<Rightarrow>
          (case rerr of
             None \<Rightarrow>
               (case dst_Write dst buf of
                  ((nw, werr), dst') \<Rightarrow>
                    let n' = n + int nw; reps' = reps @ [of_nat nw] in
                    (case werr of
                       Some e \<Rightarrow>
                         Some \<lparr>n_bytes = n', err = Some e, src_after = src', dst_after = dst',
                               reports = reps', iterations = Suc k\<rparr>
                     | None \<Rightarrow>
                         if nw < length buf then
                           Some \<lparr>n_bytes = n', err = Some ErrShortWrite, src_after = src',
                                 dst_after = dst', reports = reps', iterations = Suc k\<rparr>
                         else relay_loop src' dst' n' reps' (Suc k)))
           | Some e \<Rightarrow>
               Some \<lparr>n_bytes = n, err = (if e = io_EOF then None else Some e), src_after = src',
                     dst_after = dst, reports = reps, iterations = Suc k\<rparr>))"
  by pat_completeness auto
termination
proof (relation "measure (\<lambda>(src, dst, n, reps, k). pending src)")
  show "wf (measure (\<lambda>(src, dst, n, reps, k). pending src))" by simp
next
  fix src :: reader and dst ya :: writer and n n' :: int and reps reps' :: "32 word list"
    and k :: nat and x2 x y buf rerr
  assume "src_Read src relayBufferSize = Some x2" "(x, y) = x2" "(buf, rerr) = x"
  then show "((y, ya, n', reps', Suc k), src, dst, n, reps, k)
             \<in> measure (\<lambda>(src, dst, n, reps, k). pending src)"
    using src_Read_pending [of src relayBufferSize x y] by (simp add: relayBufferSize_def)
qed

declare relay_loop.simps [simp del]


subsection \<open>doRelay\<close>

text \<open>
  \<^verbatim>\<open>doRelay\<close> starts the two halves as goroutines, waits for \<^verbatim>\<open>relayCtx.Done()\<close>, closes
  \<^verbatim>\<open>upRWC\<close>, then \<^verbatim>\<open>downRWC\<close>, and returns, which runs the deferred
  \<^verbatim>\<open>tunnelMonitor.Close()\<close>. Each half runs \<^verbatim>\<open>relayHalf\<close>, logs, and calls the deferred
  \<^verbatim>\<open>cancelFunc\<close>. The three goroutines and the context are a transition system; the
  context can also be cancelled from outside (the enclosing context, or the cancel
  handle given to the tunnel monitor).
\<close>

datatype half_exit = SourceEOF | IOFailure | ShortWrite

datatype half_pc = Copying | Returned half_exit | Exited

datatype relay_pc = AtWait | AtCloseUp | AtCloseDown | AtMonitorClose | Done

record relay_state =
  pc :: relay_pc
  upload :: half_pc          \<comment> \<open>\<^verbatim>\<open>relay(upRWC, downRWC, "downstream", ...)\<close>\<close>
  download :: half_pc        \<comment> \<open>\<^verbatim>\<open>relay(downRWC, upRWC, "upstream", ...)\<close>\<close>
  relayCtx_done :: bool
  upRWC_closes :: nat
  downRWC_closes :: nat
  monitor_closes :: nat

inductive relay_step :: "relay_state \<Rightarrow> relay_state \<Rightarrow> bool" where
  upload_returns: "upload s = Copying \<Longrightarrow> relay_step s (s\<lparr>upload := Returned x\<rparr>)"
    \<comment> \<open>\<^verbatim>\<open>relayHalf(upRWC, downRWC, ...)\<close> returns\<close>
| upload_cancels: "upload s = Returned x \<Longrightarrow>
     relay_step s (s\<lparr>upload := Exited, relayCtx_done := True\<rparr>)"
    \<comment> \<open>the deferred \<^verbatim>\<open>cancelFunc()\<close> of the half, after its log line\<close>
| download_returns: "download s = Copying \<Longrightarrow> relay_step s (s\<lparr>download := Returned x\<rparr>)"
    \<comment> \<open>\<^verbatim>\<open>relayHalf(downRWC, upRWC, ...)\<close> returns\<close>
| download_cancels: "download s = Returned x \<Longrightarrow>
     relay_step s (s\<lparr>download := Exited, relayCtx_done := True\<rparr>)"
| outer_cancel: "relay_step s (s\<lparr>relayCtx_done := True\<rparr>)"
    \<comment> \<open>the enclosing context is cancelled, or the monitor's cancel handle is used\<close>
| wake: "pc s = AtWait \<Longrightarrow> relayCtx_done s \<Longrightarrow> relay_step s (s\<lparr>pc := AtCloseUp\<rparr>)"
    \<comment> \<open>\<^verbatim>\<open><-relayCtx.Done()\<close>\<close>
| close_up: "pc s = AtCloseUp \<Longrightarrow>
     relay_step s (s\<lparr>pc := AtCloseDown, upRWC_closes := Suc (upRWC_closes s)\<rparr>)"
    \<comment> \<open>\<^verbatim>\<open>upRWC.Close()\<close>\<close>
| close_down: "pc s = AtCloseDown \<Longrightarrow>
     relay_step s (s\<lparr>pc := AtMonitorClose, downRWC_closes := Suc (downRWC_closes s)\<rparr>)"
    \<comment> \<open>\<^verbatim>\<open>downRWC.Close()\<close>\<close>
| monitor_close: "pc s = AtMonitorClose \<Longrightarrow>
     relay_step s (s\<lparr>pc := Done, monitor_closes := Suc (monitor_closes s)\<rparr>)"
    \<comment> \<open>the return, which runs the deferred \<^verbatim>\<open>tunnelMonitor.Close()\<close>\<close>

text \<open>The state after the two \<^verbatim>\<open>go\<close> statements; the context may be done already.\<close>

definition relay_init :: "bool \<Rightarrow> relay_state" where
  "relay_init cancelled = \<lparr>pc = AtWait, upload = Copying, download = Copying,
     relayCtx_done = cancelled, upRWC_closes = 0, downRWC_closes = 0, monitor_closes = 0\<rparr>"

inductive relay_reach :: "bool \<Rightarrow> relay_state \<Rightarrow> bool" where
  relay_start: "relay_reach cx (relay_init cx)"
| relay_next: "relay_reach cx s \<Longrightarrow> relay_step s s' \<Longrightarrow> relay_reach cx s'"

text \<open>
  A run is a list of states, each reached from the one before by a step. A half that has
  returned from \<^verbatim>\<open>relayHalf\<close> ends with its deferred \<^verbatim>\<open>cancelFunc()\<close>; from the wait with
  the context done, \<^verbatim>\<open>doRelay\<close>'s own goroutine goes through four states: woken up,
  \<^verbatim>\<open>upRWC\<close> closed, \<^verbatim>\<open>downRWC\<close> closed, returned.
\<close>

fun relay_path :: "relay_state \<Rightarrow> relay_state list \<Rightarrow> bool" where
  "relay_path s [] = True"
| "relay_path s (t # ts) = (relay_step s t \<and> relay_path t ts)"

definition upload_exits :: "relay_state \<Rightarrow> relay_state" where
  "upload_exits s = s\<lparr>upload := Exited, relayCtx_done := True\<rparr>"

definition download_exits :: "relay_state \<Rightarrow> relay_state" where
  "download_exits s = s\<lparr>download := Exited, relayCtx_done := True\<rparr>"

definition doRelay_run :: "relay_state \<Rightarrow> relay_state list" where
  "doRelay_run s =
     (let s1 = s\<lparr>pc := AtCloseUp\<rparr>;
          s2 = s1\<lparr>pc := AtCloseDown, upRWC_closes := Suc (upRWC_closes s1)\<rparr>;
          s3 = s2\<lparr>pc := AtMonitorClose, downRWC_closes := Suc (downRWC_closes s2)\<rparr>;
          s4 = s3\<lparr>pc := Done, monitor_closes := Suc (monitor_closes s3)\<rparr>
      in [s1, s2, s3, s4])"

subsection \<open>Sample states\<close>

text \<open>A state of \<^verbatim>\<open>Dial\<close> in which the context is cancelled and the helper has a
  connection to deliver; a state of \<^verbatim>\<open>doRelay\<close> after its return, one in which the
  upload half has returned with an I/O error, and one in which the download half has
  returned with a short write, both with \<^verbatim>\<open>doRelay\<close> in its wait and the context live.\<close>

definition dial_sample :: dial_state where
  "dial_sample = \<lparr>helper = Sending (DialConn 0), resultCh = [], ctx_done = Some Canceled, caller = None\<rparr>"

definition relay_sample :: relay_state where
  "relay_sample = \<lparr>pc = Done, upload = Exited, download = Copying, relayCtx_done = True,
     upRWC_closes = 1, downRWC_closes = 1, monitor_closes = 1\<rparr>"

definition relay_io_sample :: relay_state where
  "relay_io_sample = \<lparr>pc = AtWait, upload = Returned IOFailure, download = Copying,
     relayCtx_done = False, upRWC_closes = 0, downRWC_closes = 0, monitor_closes = 0\<rparr>"

definition relay_short_sample :: relay_state where
  "relay_short_sample = \<lparr>pc = AtWait, upload = Copying, download = Returned ShortWrite,
     relayCtx_done = False, upRWC_closes = 0, downRWC_closes = 0, monitor_closes = 0\<rparr>"

section \<open>Properties of the KCP transport\<close>

subsection \<open>Framing\<close>

lemma Uint32_PutUint32: "Uint32 (PutUint32 v) = v"
  unfolding Uint32_def PutUint32_def
  apply (rule bit_word_eqI)
  apply (auto simp add: bit_simps)
  subgoal for n by (cases "16 \<le> n") simp_all
  subgoal for n by (cases "16 \<le> n"; cases "24 \<le> n") simp_all
  done

lemma frame_size:
  assumes "length b \<le> 0xffffffff" and "\<not> unat (of_nat (length b) + 5 :: 32 word) < 5"
  shows "unat (of_nat (length b) + 5 :: 32 word) = length b + 5"
proof -
  have m: "unat (of_nat (length b) + 5 :: 32 word) = (length b + 5) mod 4294967296"
    using assms(1) by (simp add: unat_word_ariths unat_of_nat)
  show ?thesis
  proof (cases "length b + 5 < 4294967296")
    case True
    then show ?thesis using m by simp
  next
    case False
    then have "(length b + 5) mod 4294967296 = length b + 5 - 4294967296"
      using assms(1) by (simp add: mod_if)
    then show ?thesis using assms m by simp
  qed
qed

lemma frame_wraps:
  assumes "length b \<le> 0xffffffff" and "0xfffffffa < length b"
  shows "unat (of_nat (length b) + 5 :: 32 word) < 5"
proof -
  have m: "unat (of_nat (length b) + 5 :: 32 word) = (length b + 5) mod 4294967296"
    using assms(1) by (simp add: unat_word_ariths unat_of_nat)
  have "(length b + 5) mod 4294967296 = length b + 5 - 4294967296"
    using assms by (simp add: mod_if)
  then show ?thesis using assms m by simp
qed

lemma frame_buf:
  "take 5 (take 1 ((replicate (length b + 5) (0::byte))[0 := kcpDataPacket])
           @ go_copy (take 4 (drop 1 ((replicate (length b + 5) 0)[0 := kcpDataPacket]))) (PutUint32 n)
           @ drop 5 ((replicate (length b + 5) 0)[0 := kcpDataPacket]))
   @ go_copy (drop 5 (take 1 ((replicate (length b + 5) 0)[0 := kcpDataPacket])
           @ go_copy (take 4 (drop 1 ((replicate (length b + 5) 0)[0 := kcpDataPacket]))) (PutUint32 n)
           @ drop 5 ((replicate (length b + 5) 0)[0 := kcpDataPacket]))) b
   = kcpDataPacket # PutUint32 n @ b"
  by (simp add: go_copy_def PutUint32_def upd_conv_take_nth_drop)

lemma Write_success:
  assumes "Write c b now = (Inr n, c')"
  shows "n = length b + 5"
    and "snt (sess c') = snt (sess c) @ [kcpDataPacket # PutUint32 (of_nat (length b)) @ b]"
    and "length b \<le> 0xfffffffa"
    and "lastSend c' = now"
proof -
  from assms have le: "length b \<le> 0xffffffff"
    by (auto simp: Write_def split: if_splits)
  from assms le have nw: "\<not> unat (of_nat (length b) + 5 :: 32 word) < 5"
    by (auto simp: Write_def Let_def BufPool_Get_def split: if_splits)
  have sz: "unat (of_nat (length b) + 5 :: 32 word) = length b + 5"
    using frame_size [OF le nw] .
  show "length b \<le> 0xfffffffa"
    using frame_wraps [OF le] nw by (cases "0xfffffffa < length b") simp_all
  have ok: "wr_ok (sess c)"
    using assms le nw by (auto simp: Write_def Let_def BufPool_Get_def sess_Write_def split: if_splits)
  have R: "Write c b now = (Inr (length (kcpDataPacket # PutUint32 (of_nat (length b)) @ b)),
            c\<lparr>lastSend := now, lastWriteStart := now,
              sess := (sess c)\<lparr>snt := snt (sess c) @ [kcpDataPacket # PutUint32 (of_nat (length b)) @ b]\<rparr>,
              lastWriteStart := 0\<rparr>)"
    unfolding Write_def Let_def BufPool_Get_def sz frame_buf
    using le ok by (simp add: sess_Write_def)
  from R assms show "n = length b + 5" by (simp add: PutUint32_def)
  from R assms show "snt (sess c') = snt (sess c) @ [kcpDataPacket # PutUint32 (of_nat (length b)) @ b]"
    by auto
  from R assms show "lastSend c' = now" by auto
qed

lemma Write_sample:
  "Write (new_conn (open_session []) 1) [65] 7 =
     (Inr 6, \<lparr>sess = \<lparr>rcv = [], snt = [[0, 0, 0, 0, 1, 65]], wr_ok = True, close_scheduled = False\<rparr>,
              rdDataLeft = 0, lastSend = 7, lastReadStart = 0, lastWriteStart = 0\<rparr>)"
  by (simp add: Write_def new_conn_def open_session_def BufPool_Get_def sess_Write_def
      go_copy_def PutUint32_def kcpDataPacket_def)
    (simp add: eval_nat_numeral)

lemmas kcp_eval = Read_def Read_loop.simps read_def sess_Read_def new_conn_def open_session_def
  go_copy_def Uint32_def kcpClose_def kcpDataPacket_def kcpKeepAlive_def

lemma seg_read_length: "seg_read k r = Some (bs, r') \<Longrightarrow> length bs \<le> k"
  by (induction k r rule: seg_read.induct) (auto split: if_splits)

lemma seg_read_concat: "seg_read k r = Some (bs, r') \<Longrightarrow> concat r = bs @ concat r'"
  by (induction k r rule: seg_read.induct) (auto split: if_splits)

lemma seg_read_nonempty: "seg_read k r = Some (bs, r') \<Longrightarrow> 0 < k \<Longrightarrow> bs \<noteq> []"
  by (induction k r rule: seg_read.induct) (auto split: if_splits)

lemma seg_read_None: "seg_read k r = None \<longleftrightarrow> concat r = []"
  by (induction k r rule: seg_read.induct) auto

lemma read_Inr:
  assumes "read c k = (Inr bs, c')"
  shows "length bs \<le> k" and "concat (rcv (sess c)) = bs @ concat (rcv (sess c'))"
    and "rdDataLeft c' = rdDataLeft c" and "lastSend c' = lastSend c" and "lastReadStart c' = 0"
  using assms
  by (auto simp: read_def sess_Read_def split: option.splits
      dest: seg_read_length seg_read_concat)

lemma read_Inl:
  assumes "read c k = (Inl e, c')"
  shows "e = SessionError" and "c' = c\<lparr>lastReadStart := 0\<rparr>" and "concat (rcv (sess c)) = []"
  using assms
  by (auto simp: read_def sess_Read_def seg_read_None split: option.splits)

lemma unat_decrement:
  fixes w :: "32 word"
  assumes "n \<le> unat w"
  shows "unat (w - of_nat n) = unat w - n"
proof -
  have "n < 2 ^ 32" using assms unsigned_less [of w, where 'a = nat] by simp
  then have u: "unat (of_nat n :: 32 word) = n" by (simp add: unat_of_nat)
  then have "(of_nat n :: 32 word) \<le> w" using assms by (simp add: word_le_nat_alt)
  then show ?thesis using u by (simp add: unat_sub)
qed

subsection \<open>Write\<close>

text \<open>
  Claim C10. A successful \<^verbatim>\<open>Write(payload)\<close> returns the number of bytes the session
  accepted of the framed buffer, which is the payload's length plus 5 (the kind byte and
  the four length bytes), not the payload's length; the buffer handed to the session is
  the kind byte 0, the big-endian length and the payload.
\<close>

theorem Write_returns_frame_length:
  assumes "Write c b now = (Inr n, c')"
  shows "n = length b + 5 \<and> n \<noteq> length b \<and> n = length (last (snt (sess c')))
         \<and> snt (sess c') = snt (sess c) @ [kcpDataPacket # PutUint32 (of_nat (length b)) @ b]"
  using Write_success(1,2) [OF assms] by (simp add: PutUint32_def)

text \<open>A write of one byte on a fresh connection returns 6.\<close>

theorem Write_returns_frame_length_witness:
  "Write (new_conn (open_session []) 1) [65] 7 =
     (Inr 6, \<lparr>sess = \<lparr>rcv = [], snt = [[0, 0, 0, 0, 1, 65]], wr_ok = True, close_scheduled = False\<rparr>,
              rdDataLeft = 0, lastSend = 7, lastReadStart = 0, lastWriteStart = 0\<rparr>)
   \<and> (6::nat) = length [65 :: byte] + 5 \<and> (6::nat) \<noteq> length [65 :: byte]"
  using Write_returns_frame_length [OF Write_sample] Write_sample by simp

text \<open>A payload longer than \<open>2\<^sup>3\<^sup>2 - 1\<close> bytes is rejected with an error; nothing is
  handed to the session and no field changes.\<close>

theorem Write_rejects_oversize:
  "0xffffffff < length b \<longrightarrow> Write c b now = (Inl SendTooLarge, c)"
  by (simp add: Write_def)

text \<open>A payload of \<open>2\<^sup>3\<^sup>2\<close> bytes.\<close>

theorem Write_rejects_oversize_witness:
  "Write (new_conn (open_session []) 1) (replicate 4294967296 0) 7
     = (Inl SendTooLarge, new_conn (open_session []) 1)"
  using Write_rejects_oversize [of "replicate 4294967296 0" "new_conn (open_session []) 1" 7]
  by simp

text \<open>
  For a payload of \<open>2\<^sup>3\<^sup>2 - 5\<close> to \<open>2\<^sup>3\<^sup>2 - 1\<close> bytes the sum \<^verbatim>\<open>n + 5\<close> wraps around, the
  buffer taken from the pool is shorter than the frame header, and \<^verbatim>\<open>Write\<close> panics
  before it stores a field or writes to the session.
\<close>

theorem Write_length_wraps:
  "0xfffffffa < length b \<and> length b \<le> 0xffffffff \<longrightarrow> Write c b now = (Inl GoPanic, c)"
  using frame_wraps [of b] by (simp add: Write_def BufPool_Get_def Let_def)

text \<open>A payload of \<open>2\<^sup>3\<^sup>2 - 1\<close> bytes.\<close>

theorem Write_length_wraps_witness:
  "Write (new_conn (open_session []) 1) (replicate 4294967295 0) 7
     = (Inl GoPanic, new_conn (open_session []) 1)"
  using Write_length_wraps [of "replicate 4294967295 0" "new_conn (open_session []) 1" 7]
  by simp

subsection \<open>Read\<close>

lemma Read_loop_nonzero: "rdDataLeft c \<noteq> 0 \<Longrightarrow> Read_loop c = Inr c"
  by (simp add: Read_loop.simps [of c])

lemma Read_loop_error:
  "rdDataLeft c = 0 \<Longrightarrow> read c 1 = (Inl e, c1) \<Longrightarrow> Read_loop c = Inl (e, c1)"
  by (simp add: Read_loop.simps [of c])

lemma Read_loop_Close:
  "rdDataLeft c = 0 \<Longrightarrow> read c 1 = (Inr [kcpClose], c1) \<Longrightarrow>
   Read_loop c = Inl (EOF, c1\<lparr>lastSend := 0\<rparr>)"
  by (simp add: Read_loop.simps [of c] go_copy_def)

lemma Read_loop_KeepAlive:
  "rdDataLeft c = 0 \<Longrightarrow> read c 1 = (Inr [kcpKeepAlive], c1) \<Longrightarrow> Read_loop c = Read_loop c1"
  by (simp add: Read_loop.simps [of c] go_copy_def kcpKeepAlive_def kcpClose_def kcpDataPacket_def)

lemma Read_loop_Data_error:
  "rdDataLeft c = 0 \<Longrightarrow> read c 1 = (Inr [kcpDataPacket], c1) \<Longrightarrow> read c1 4 = (Inl e, c2) \<Longrightarrow>
   Read_loop c = Inl (e, c2)"
  by (simp add: Read_loop.simps [of c] go_copy_def kcpKeepAlive_def kcpClose_def kcpDataPacket_def)

lemma Read_loop_Data:
  "rdDataLeft c = 0 \<Longrightarrow> read c 1 = (Inr [kcpDataPacket], c1) \<Longrightarrow> read c1 4 = (Inr h4, c2) \<Longrightarrow>
   length h4 = 4 \<Longrightarrow> Read_loop c = Read_loop (c2\<lparr>rdDataLeft := Uint32 h4\<rparr>)"
  by (simp add: Read_loop.simps [of c] go_copy_def kcpKeepAlive_def kcpClose_def kcpDataPacket_def)

lemma Read_loop_invalid:
  "rdDataLeft c = 0 \<Longrightarrow> read c 1 = (Inr [x], c1) \<Longrightarrow>
   x \<noteq> kcpClose \<Longrightarrow> x \<noteq> kcpDataPacket \<Longrightarrow> x \<noteq> kcpKeepAlive \<Longrightarrow>
   Read_loop c = Inl (InvalidHeader x, c1)"
  by (simp add: Read_loop.simps [of c] go_copy_def)


text \<open>
  Claim C4, as the code has it. With \<open>rdDataLeft = 0\<close>, \<^verbatim>\<open>Read\<close> reads one header byte
  (an error of that read is returned); on Close it stores \<open>lastSend := 0\<close> and returns
  end-of-stream, and \<open>rdDataLeft\<close> is still 0, so the next \<^verbatim>\<open>Read\<close> starts with a header
  byte again; on KeepAlive it goes on as a \<^verbatim>\<open>Read\<close> of the remaining input; on Data it
  makes one session read for the length (an error of that read is returned) and, when
  the read delivers all four bytes, goes on as a \<^verbatim>\<open>Read\<close> with \<open>rdDataLeft\<close> set to their
  big-endian value, which leaves the loop when the value is not 0 and reads the next
  header byte when it is 0; any other byte is a protocol error. With \<open>rdDataLeft \<noteq> 0\<close>
  it makes one session read of at most \<open>min (len b) rdDataLeft\<close> bytes, returns what
  that read delivered and subtracts its length from \<open>rdDataLeft\<close>, without wrap-around.
\<close>

theorem Read_state_machine:
  "(rdDataLeft c = 0 \<and> read c 1 = (Inl e, c1) \<longrightarrow> Read c lenb = (Inl e, c1))
 \<and> (rdDataLeft c = 0 \<and> read c 1 = (Inr [kcpClose], c1) \<longrightarrow>
      Read c lenb = (Inl EOF, c1\<lparr>lastSend := 0\<rparr>) \<and> rdDataLeft (c1\<lparr>lastSend := 0\<rparr>) = 0)
 \<and> (rdDataLeft c = 0 \<and> read c 1 = (Inr [kcpKeepAlive], c1) \<longrightarrow> Read c lenb = Read c1 lenb)
 \<and> (rdDataLeft c = 0 \<and> read c 1 = (Inr [kcpDataPacket], c1) \<and> read c1 4 = (Inl e, c2) \<longrightarrow>
      Read c lenb = (Inl e, c2))
 \<and> (rdDataLeft c = 0 \<and> read c 1 = (Inr [kcpDataPacket], c1) \<and> read c1 4 = (Inr h4, c2)
      \<and> length h4 = 4 \<longrightarrow>
      Read c lenb = Read (c2\<lparr>rdDataLeft := Uint32 h4\<rparr>) lenb)
 \<and> (rdDataLeft c = 0 \<and> read c 1 = (Inr [x], c1)
      \<and> x \<noteq> kcpClose \<and> x \<noteq> kcpDataPacket \<and> x \<noteq> kcpKeepAlive \<longrightarrow>
      Read c lenb = (Inl (InvalidHeader x), c1))
 \<and> (rdDataLeft c \<noteq> 0 \<and> read c (min lenb (unat (rdDataLeft c))) = (Inl e, c1) \<longrightarrow>
      Read c lenb = (Inl e, c1))
 \<and> (rdDataLeft c \<noteq> 0 \<and> read c (min lenb (unat (rdDataLeft c))) = (Inr bs, c1) \<longrightarrow>
      Read c lenb = (Inr bs, c1\<lparr>rdDataLeft := rdDataLeft c - of_nat (length bs)\<rparr>)
      \<and> length bs \<le> min lenb (unat (rdDataLeft c))
      \<and> unat (rdDataLeft c - of_nat (length bs)) = unat (rdDataLeft c) - length bs)"
proof -
  have k: "(if unat (rdDataLeft c) < lenb then unat (rdDataLeft c) else lenb)
           = min lenb (unat (rdDataLeft c))"
    by simp
  have p1: "rdDataLeft c = 0 \<and> read c 1 = (Inl e, c1) \<longrightarrow> Read c lenb = (Inl e, c1)"
    by (simp add: Read_def Read_loop_error)
  have p2: "rdDataLeft c = 0 \<and> read c 1 = (Inr [kcpClose], c1) \<longrightarrow>
      Read c lenb = (Inl EOF, c1\<lparr>lastSend := 0\<rparr>) \<and> rdDataLeft (c1\<lparr>lastSend := 0\<rparr>) = 0"
    using read_Inr(3) [of c 1 "[kcpClose]" c1] by (simp add: Read_def Read_loop_Close)
  have p3: "rdDataLeft c = 0 \<and> read c 1 = (Inr [kcpKeepAlive], c1) \<longrightarrow> Read c lenb = Read c1 lenb"
    by (simp add: Read_def Read_loop_KeepAlive)
  have p4: "rdDataLeft c = 0 \<and> read c 1 = (Inr [kcpDataPacket], c1) \<and> read c1 4 = (Inl e, c2) \<longrightarrow>
      Read c lenb = (Inl e, c2)"
    by (simp add: Read_def Read_loop_Data_error)
  have p5: "rdDataLeft c = 0 \<and> read c 1 = (Inr [kcpDataPacket], c1) \<and> read c1 4 = (Inr h4, c2)
      \<and> length h4 = 4 \<longrightarrow> Read c lenb = Read (c2\<lparr>rdDataLeft := Uint32 h4\<rparr>) lenb"
    by (simp add: Read_def Read_loop_Data)
  have p6: "rdDataLeft c = 0 \<and> read c 1 = (Inr [x], c1)
      \<and> x \<noteq> kcpClose \<and> x \<noteq> kcpDataPacket \<and> x \<noteq> kcpKeepAlive \<longrightarrow>
      Read c lenb = (Inl (InvalidHeader x), c1)"
    by (simp add: Read_def Read_loop_invalid)
  have p7: "rdDataLeft c \<noteq> 0 \<and> read c (min lenb (unat (rdDataLeft c))) = (Inl e, c1) \<longrightarrow>
      Read c lenb = (Inl e, c1)"
    by (simp add: Read_def Read_loop_nonzero k del: min_less_iff_conj)
  have p8: "rdDataLeft c \<noteq> 0 \<and> read c (min lenb (unat (rdDataLeft c))) = (Inr bs, c1) \<longrightarrow>
      Read c lenb = (Inr bs, c1\<lparr>rdDataLeft := rdDataLeft c - of_nat (length bs)\<rparr>)
      \<and> length bs \<le> min lenb (unat (rdDataLeft c))
      \<and> unat (rdDataLeft c - of_nat (length bs)) = unat (rdDataLeft c) - length bs"
  proof (intro impI, elim conjE)
    assume nz: "rdDataLeft c \<noteq> 0"
       and rd: "read c (min lenb (unat (rdDataLeft c))) = (Inr bs, c1)"
    have len: "length bs \<le> min lenb (unat (rdDataLeft c))"
      using read_Inr(1) [OF rd] .
    have same: "rdDataLeft c1 = rdDataLeft c"
      using read_Inr(3) [OF rd] .
    have "Read c lenb = (Inr bs, c1\<lparr>rdDataLeft := rdDataLeft c - of_nat (length bs)\<rparr>)"
      using nz rd same by (simp add: Read_def Read_loop_nonzero k)
    moreover have "unat (rdDataLeft c - of_nat (length bs)) = unat (rdDataLeft c) - length bs"
      using len by (intro unat_decrement) simp
    ultimately show "Read c lenb = (Inr bs, c1\<lparr>rdDataLeft := rdDataLeft c - of_nat (length bs)\<rparr>)
      \<and> length bs \<le> min lenb (unat (rdDataLeft c))
      \<and> unat (rdDataLeft c - of_nat (length bs)) = unat (rdDataLeft c) - length bs"
      using len by simp
  qed
  from p1 p2 p3 p4 p5 p6 p7 p8 show ?thesis by blast
qed

text \<open>One input for each case of the theorem.\<close>

lemmas read_eval = read_def sess_Read_def new_conn_def open_session_def
  kcpClose_def kcpDataPacket_def kcpKeepAlive_def

theorem Read_state_machine_witness:
  "Read (new_conn (open_session []) 1) 10 = (Inl SessionError, new_conn (open_session []) 1)
   \<and> Read (new_conn (open_session [[1]]) 1) 10 = (Inl EOF, new_conn (open_session []) 0)
   \<and> Read (new_conn (open_session [[2, 1]]) 1) 10 = Read (new_conn (open_session [[1]]) 1) 10
   \<and> Read (new_conn (open_session [[0]]) 1) 10 = (Inl SessionError, new_conn (open_session []) 1)
   \<and> Read (new_conn (open_session [[0, 0, 0, 0, 1, 65]]) 1) 10
       = Read ((new_conn (open_session [[65]]) 1)\<lparr>rdDataLeft := 1\<rparr>) 10
   \<and> Read (new_conn (open_session [[7]]) 1) 10
       = (Inl (InvalidHeader 7), new_conn (open_session []) 1)
   \<and> Read ((new_conn (open_session []) 1)\<lparr>rdDataLeft := 3\<rparr>) 10
       = (Inl SessionError, (new_conn (open_session []) 1)\<lparr>rdDataLeft := 3\<rparr>)
   \<and> Read ((new_conn (open_session [[65, 66]]) 1)\<lparr>rdDataLeft := 3\<rparr>) 10
       = (Inr [65, 66], (new_conn (open_session []) 1)\<lparr>rdDataLeft := 1\<rparr>)"
proof -
  have w1: "Read (new_conn (open_session []) 1) 10 = (Inl SessionError, new_conn (open_session []) 1)"
    using Read_state_machine [where c = "new_conn (open_session []) 1" and e = SessionError
        and ?c1.0 = "new_conn (open_session []) 1" and lenb = 10]
    by (simp add: read_eval)
  have w2: "Read (new_conn (open_session [[1]]) 1) 10 = (Inl EOF, new_conn (open_session []) 0)"
    using Read_state_machine [where c = "new_conn (open_session [[1]]) 1"
        and ?c1.0 = "new_conn (open_session []) 1" and lenb = 10]
    by (simp add: read_eval)
  have w3: "Read (new_conn (open_session [[2, 1]]) 1) 10 = Read (new_conn (open_session [[1]]) 1) 10"
    using Read_state_machine [where c = "new_conn (open_session [[2, 1]]) 1"
        and ?c1.0 = "new_conn (open_session [[1]]) 1" and lenb = 10]
    by (simp add: read_eval)
  have w4: "Read (new_conn (open_session [[0]]) 1) 10 = (Inl SessionError, new_conn (open_session []) 1)"
    using Read_state_machine [where c = "new_conn (open_session [[0]]) 1" and e = SessionError
        and ?c1.0 = "new_conn (open_session []) 1" and ?c2.0 = "new_conn (open_session []) 1"
        and lenb = 10]
    by (simp add: read_eval)
  have w5: "Read (new_conn (open_session [[0, 0, 0, 0, 1, 65]]) 1) 10
       = Read ((new_conn (open_session [[65]]) 1)\<lparr>rdDataLeft := 1\<rparr>) 10"
    using Read_state_machine [where c = "new_conn (open_session [[0, 0, 0, 0, 1, 65]]) 1"
        and ?c1.0 = "new_conn (open_session [[0, 0, 0, 1, 65]]) 1"
        and ?c2.0 = "new_conn (open_session [[65]]) 1" and ?h4.0 = "[0, 0, 0, 1]" and lenb = 10]
    by (simp add: read_eval Uint32_def)
  have w6: "Read (new_conn (open_session [[7]]) 1) 10
       = (Inl (InvalidHeader 7), new_conn (open_session []) 1)"
    using Read_state_machine [where c = "new_conn (open_session [[7]]) 1" and x = 7
        and ?c1.0 = "new_conn (open_session []) 1" and lenb = 10]
    by (simp add: read_eval)
  have w7: "Read ((new_conn (open_session []) 1)\<lparr>rdDataLeft := 3\<rparr>) 10
       = (Inl SessionError, (new_conn (open_session []) 1)\<lparr>rdDataLeft := 3\<rparr>)"
    using Read_state_machine [where c = "(new_conn (open_session []) 1)\<lparr>rdDataLeft := 3\<rparr>"
        and e = SessionError
        and ?c1.0 = "(new_conn (open_session []) 1)\<lparr>rdDataLeft := 3\<rparr>" and lenb = 10]
    by (simp add: read_eval)
  have w8: "Read ((new_conn (open_session [[65, 66]]) 1)\<lparr>rdDataLeft := 3\<rparr>) 10
       = (Inr [65, 66], (new_conn (open_session []) 1)\<lparr>rdDataLeft := 1\<rparr>)"
    using Read_state_machine [where c = "(new_conn (open_session [[65, 66]]) 1)\<lparr>rdDataLeft := 3\<rparr>"
        and bs = "[65, 66]"
        and ?c1.0 = "(new_conn (open_session []) 1)\<lparr>rdDataLeft := 3\<rparr>" and lenb = 10]
    by (simp add: read_eval)
  from w1 w2 w3 w4 w5 w6 w7 w8 show ?thesis by blast
qed


text \<open>
  Claim C4 as stated fails on the stream: empty Data frame, Close frame, Data frame with
  the payload 65. The first \<^verbatim>\<open>Read\<close> does not leave the loop at the Data frame and return
  zero bytes: it goes on to the Close frame and returns end-of-stream. The second
  \<^verbatim>\<open>Read\<close>, after the Close frame, does not return end-of-stream: it returns the payload
  of the frame that follows.
\<close>

theorem Read_after_Close_counterexample:
  "fst (Read (new_conn (open_session [[0, 0, 0, 0, 0, 1, 0, 0, 0, 0, 1, 65]]) 1) 10) = Inl EOF
   \<and> fst (Read (snd (Read (new_conn (open_session [[0, 0, 0, 0, 0, 1, 0, 0, 0, 0, 1, 65]]) 1) 10)) 10)
       = Inr [65]"
  by (simp add: kcp_eval)


text \<open>
  Claim C1 at a failing input. Two \<^verbatim>\<open>Write\<close>s in a row, of the one-byte payloads 65 and
  66, emit the frames 0 0 0 0 1 65 and 0 0 0 0 1 66. When the peer's session delivers
  these twelve bytes as the segments 0 0 0 0 1 65 0 0 and 0 0 1 66, the first \<^verbatim>\<open>Read\<close>
  returns 65; in the second the read for the length field gets the one byte left in the
  first segment, the length is taken as 0, the next byte (0, the second byte of the
  length) is taken for the kind of a Data frame and the bytes 0 1 66 for the first three
  of its length: \<open>rdDataLeft\<close> is 82432, the payload 66 is not delivered, and with nothing
  more in the queue the session read ends the \<^verbatim>\<open>Read\<close> with an error. The same happens
  with one frame alone: delivered as the segments 0 0 0 0 and 1 65, the read for
  the length field gets the three bytes left in the first segment, the length is
  taken as 0, the next byte (1, the last byte of the length) is taken for a Close frame,
  and the peer's \<^verbatim>\<open>Read\<close> returns end-of-stream and stores \<open>lastSend := 0\<close>. The same
  frame delivered in one segment is read back as 65.
\<close>

theorem Read_split_length_field:
  "snt (sess (snd (Write (new_conn (open_session []) 1) [65] 7))) = [[0, 0, 0, 0, 1, 65]]
   \<and> concat [[0, 0, 0, 0], [1, 65 :: byte]] = [0, 0, 0, 0, 1, 65]
   \<and> Read (new_conn (open_session [[0, 0, 0, 0], [1, 65]]) 1) 10 =
       (Inl EOF, \<lparr>sess = \<lparr>rcv = [[65]], snt = [], wr_ok = True, close_scheduled = False\<rparr>,
                  rdDataLeft = 0, lastSend = 0, lastReadStart = 0, lastWriteStart = 0\<rparr>)
   \<and> Read (new_conn (open_session [[0, 0, 0, 0, 1, 65]]) 1) 10 =
       (Inr [65], \<lparr>sess = \<lparr>rcv = [], snt = [], wr_ok = True, close_scheduled = False\<rparr>,
                  rdDataLeft = 0, lastSend = 1, lastReadStart = 0, lastWriteStart = 0\<rparr>)
   \<and> snt (sess (snd (Write (snd (Write (new_conn (open_session []) 1) [65] 7)) [66] 8)))
       = [[0, 0, 0, 0, 1, 65], [0, 0, 0, 0, 1, 66]]
   \<and> concat [[0, 0, 0, 0, 1, 65, 0, 0], [0, 0, 1, 66 :: byte]]
       = concat [[0, 0, 0, 0, 1, 65], [0, 0, 0, 0, 1, 66]]
   \<and> Read (new_conn (open_session [[0, 0, 0, 0, 1, 65, 0, 0], [0, 0, 1, 66]]) 1) 10 =
       (Inr [65], \<lparr>sess = \<lparr>rcv = [[0, 0], [0, 0, 1, 66]], snt = [], wr_ok = True,
                          close_scheduled = False\<rparr>,
                  rdDataLeft = 0, lastSend = 1, lastReadStart = 0, lastWriteStart = 0\<rparr>)
   \<and> Read (snd (Read (new_conn (open_session [[0, 0, 0, 0, 1, 65, 0, 0], [0, 0, 1, 66]]) 1) 10)) 10 =
       (Inl SessionError, \<lparr>sess = \<lparr>rcv = [], snt = [], wr_ok = True, close_scheduled = False\<rparr>,
                  rdDataLeft = 82432, lastSend = 1, lastReadStart = 0, lastWriteStart = 0\<rparr>)"
proof -
  have w1: "snt (sess (snd (Write (new_conn (open_session []) 1) [65] 7))) = [[0, 0, 0, 0, 1, 65]]"
    by (simp add: Write_sample)
  have w2: "snt (sess (snd (Write (snd (Write (new_conn (open_session []) 1) [65] 7)) [66] 8)))
       = [[0, 0, 0, 0, 1, 65], [0, 0, 0, 0, 1, 66]]"
    by (simp add: Write_def BufPool_Get_def sess_Write_def go_copy_def PutUint32_def
          kcpDataPacket_def new_conn_def open_session_def Let_def)
       (simp add: eval_nat_numeral)
  have r1: "Read (new_conn (open_session [[0, 0, 0, 0, 1, 65, 0, 0], [0, 0, 1, 66]]) 1) 10 =
       (Inr [65], \<lparr>sess = \<lparr>rcv = [[0, 0], [0, 0, 1, 66]], snt = [], wr_ok = True,
                          close_scheduled = False\<rparr>,
                  rdDataLeft = 0, lastSend = 1, lastReadStart = 0, lastWriteStart = 0\<rparr>)"
    by (simp add: kcp_eval)
  have r2: "Read \<lparr>sess = \<lparr>rcv = [[0, 0], [0, 0, 1, 66]], snt = [], wr_ok = True,
                          close_scheduled = False\<rparr>,
                  rdDataLeft = 0, lastSend = 1, lastReadStart = 0, lastWriteStart = 0\<rparr> 10 =
       (Inl SessionError, \<lparr>sess = \<lparr>rcv = [], snt = [], wr_ok = True, close_scheduled = False\<rparr>,
                  rdDataLeft = 82432, lastSend = 1, lastReadStart = 0, lastWriteStart = 0\<rparr>)"
    by (simp add: kcp_eval)
  have old: "concat [[0, 0, 0, 0], [1, 65 :: byte]] = [0, 0, 0, 0, 1, 65]
   \<and> Read (new_conn (open_session [[0, 0, 0, 0], [1, 65]]) 1) 10 =
       (Inl EOF, \<lparr>sess = \<lparr>rcv = [[65]], snt = [], wr_ok = True, close_scheduled = False\<rparr>,
                  rdDataLeft = 0, lastSend = 0, lastReadStart = 0, lastWriteStart = 0\<rparr>)
   \<and> Read (new_conn (open_session [[0, 0, 0, 0, 1, 65]]) 1) 10 =
       (Inr [65], \<lparr>sess = \<lparr>rcv = [], snt = [], wr_ok = True, close_scheduled = False\<rparr>,
                  rdDataLeft = 0, lastSend = 1, lastReadStart = 0, lastWriteStart = 0\<rparr>)"
    by (simp add: kcp_eval)
  have r3: "Read (snd (Read (new_conn (open_session [[0, 0, 0, 0, 1, 65, 0, 0], [0, 0, 1, 66]]) 1) 10)) 10 =
       (Inl SessionError, \<lparr>sess = \<lparr>rcv = [], snt = [], wr_ok = True, close_scheduled = False\<rparr>,
                  rdDataLeft = 82432, lastSend = 1, lastReadStart = 0, lastWriteStart = 0\<rparr>)"
    by (simp only: r1 snd_conv r2)
  have c: "concat [[0, 0, 0, 0, 1, 65, 0, 0], [0, 0, 1, 66 :: byte]]
       = concat [[0, 0, 0, 0, 1, 65], [0, 0, 0, 0, 1, 66]]"
    by simp
  from w1 old w2 c r1 r3 show ?thesis by blast
qed

subsection \<open>The keep-alive manager\<close>

lemma scan_removes_closed:
  "scan timeout interval now h ps = (ps', gs) \<Longrightarrow> p \<in> set ps' \<Longrightarrow> lastSend (h p) \<noteq> 0 \<and> p \<in> set ps"
  by (induction ps arbitrary: ps' gs)
     (auto simp: scan_conn_def Let_def split: prod.splits if_splits)

lemma Close_sample:
  "Close (new_conn (open_session []) 1) =
     \<lparr>sess = \<lparr>rcv = [], snt = [[1]], wr_ok = True, close_scheduled = True\<rparr>,
      rdDataLeft = 0, lastSend = 0, lastReadStart = 0, lastWriteStart = 0\<rparr>"
  by (simp add: Close_def new_conn_def open_session_def sess_Write_def kcpClose_def)

lemma Write_after_Close_sample:
  "Write \<lparr>sess = \<lparr>rcv = [], snt = [[1]], wr_ok = True, close_scheduled = True\<rparr>,
      rdDataLeft = 0, lastSend = 0, lastReadStart = 0, lastWriteStart = 0\<rparr> [65] 5 =
   (Inr 6, \<lparr>sess = \<lparr>rcv = [], snt = [[1], [0, 0, 0, 0, 1, 65]], wr_ok = True, close_scheduled = True\<rparr>,
      rdDataLeft = 0, lastSend = 5, lastReadStart = 0, lastWriteStart = 0\<rparr>)"
  by (simp add: Write_def BufPool_Get_def sess_Write_def go_copy_def PutUint32_def kcpDataPacket_def)
     (simp add: eval_nat_numeral)


lemma Close_lastSend: "lastSend (Close c) = 0"
  by (simp add: Close_def Let_def split: prod.splits)

lemma tick_conns:
  "conns t = Some l \<Longrightarrow> \<exists>ps. conns (fst (tick t now)) = Some ps"
  by (simp add: tick_def split: prod.splits)

text \<open>
  What a tick does with a closed connection. \<^verbatim>\<open>Close\<close> stores \<open>lastSend := 0\<close> and leaves
  the list alone. A tick keeps only connections that were in the list and whose
  \<open>lastSend\<close> was not 0 when the manager looked at them; so a tick that finds the 0 that
  \<^verbatim>\<open>Close\<close> stored removes the closed connection, and adds none.
\<close>

theorem closed_conn_removed_at_tick:
  "(tick t now = (t', gs) \<and> conns t' = Some ps \<and> p \<in> set ps \<longrightarrow>
      lastSend (heap t p) \<noteq> 0 \<and> (\<exists>l. conns t = Some l \<and> p \<in> set l))
 \<and> lastSend (heap (conn_Close t p) p) = 0
 \<and> conns (conn_Close t p) = conns t
 \<and> (conns t = Some l \<longrightarrow>
      (\<exists>ps. conns (fst (tick (conn_Close t p) now)) = Some ps \<and> p \<notin> set ps \<and> set ps \<subseteq> set l))"
proof (intro conjI impI)
  assume "tick t now = (t', gs) \<and> conns t' = Some ps \<and> p \<in> set ps"
  then show "lastSend (heap t p) \<noteq> 0" and "\<exists>l. conns t = Some l \<and> p \<in> set l"
    by (auto simp: tick_def split: option.splits prod.splits dest: scan_removes_closed)
next
  show z: "lastSend (heap (conn_Close t p) p) = 0"
    by (simp add: conn_Close_def Close_lastSend)
  show c: "conns (conn_Close t p) = conns t"
    by (simp add: conn_Close_def)
  assume l: "conns t = Some l"
  let ?t = "conn_Close t p"
  obtain ps where ps: "conns (fst (tick ?t now)) = Some ps"
    using tick_conns [of ?t l now] l c by auto
  obtain t' gs where tk: "tick ?t now = (t', gs)" by (cases "tick ?t now")
  have "\<forall>q \<in> set ps. lastSend (heap ?t q) \<noteq> 0 \<and> q \<in> set l"
    using tk ps l c by (auto simp: tick_def split: prod.splits dest: scan_removes_closed)
  then have "p \<notin> set ps \<and> set ps \<subseteq> set l" using z by auto
  then show "\<exists>ps. conns (fst (tick ?t now)) = Some ps \<and> p \<notin> set ps \<and> set ps \<subseteq> set l"
    using ps by blast
qed

text \<open>Two connections, the first one closed: the tick keeps the second only.\<close>

theorem closed_conn_removed_at_tick_witness:
  "tick (conn_Close (wrapKCPConn (wrapKCPConn keepalive_transport 0 (open_session []) 1) 1 (open_session []) 2) 0) 6
     = (conn_Close (wrapKCPConn (wrapKCPConn keepalive_transport 0 (open_session []) 1) 1 (open_session []) 2) 0
          \<lparr>conns := Some [1]\<rparr>, [])
   \<and> lastSend (heap (conn_Close (wrapKCPConn (wrapKCPConn keepalive_transport 0 (open_session []) 1) 1 (open_session []) 2) 0) 1) = 2
   \<and> conns (wrapKCPConn (wrapKCPConn keepalive_transport 0 (open_session []) 1) 1 (open_session []) 2) = Some [0, 1]"
proof -
  let ?u = "wrapKCPConn (wrapKCPConn keepalive_transport 0 (open_session []) 1) 1 (open_session []) 2"
  let ?t = "conn_Close ?u 0"
  have l: "conns ?u = Some [0, 1]"
    by (simp add: wrapKCPConn_def keepalive_transport_def)
  have e: "tick ?t 6 = (?t\<lparr>conns := Some [1]\<rparr>, [])"
    by (simp add: wrapKCPConn_def keepalive_transport_def conn_Close_def tick_def
        scan_conn_def Close_def sess_Write_def new_conn_def open_session_def Let_def)
  have c: "conns (?t\<lparr>conns := Some [1]\<rparr>) = Some [1]" by simp
  from closed_conn_removed_at_tick [of ?t 6 "?t\<lparr>conns := Some [1]\<rparr>" "[]" "[1]" 1] e c
  have "lastSend (heap ?t 1) \<noteq> 0" by simp
  moreover have "lastSend (heap ?t 1) = 2"
    by (simp add: wrapKCPConn_def keepalive_transport_def conn_Close_def)
  moreover from closed_conn_removed_at_tick [of ?u 6 _ _ _ 0 "[0, 1]"] l
  have "\<exists>ps. conns (fst (tick ?t 6)) = Some ps \<and> 0 \<notin> set ps" by blast
  ultimately show ?thesis using e l by simp
qed

text \<open>
  Claim C5 at a failing input. A connection is registered at time 1 and closed: it is in
  the list with \<open>lastSend = 0\<close> until the next tick, and a tick at this point would
  remove it. A \<^verbatim>\<open>Write\<close> at time 5, before the tick, succeeds (the session stays open for
  the linger time) and stores \<open>lastSend := 5\<close> over the 0 that marks the connection as
  closed. The tick at time 6 finds \<open>lastSend \<noteq> 0\<close>, keeps the closed connection in the
  list and starts no goroutine for it.
\<close>

theorem Write_after_Close_keeps_conn_listed:
  "(let t1 = wrapKCPConn keepalive_transport 0 (open_session []) 1;
        t2 = conn_Close t1 0;
        (r, t3) = conn_Write t2 0 [65] 5;
        (t4, gs) = tick t3 6
    in conns t1 = Some [0] \<and> conns t2 = Some [0] \<and> lastSend (heap t2 0) = 0
       \<and> fst (tick t2 6) = t2\<lparr>conns := Some []\<rparr>
       \<and> r = Inr 6 \<and> lastSend (heap t3 0) = 5 \<and> conns t4 = Some [0] \<and> gs = [])"
  by (simp add: wrapKCPConn_def keepalive_transport_def conn_Close_def conn_Write_def tick_def
      scan_conn_def Close_sample [unfolded new_conn_def open_session_def]
      Write_after_Close_sample new_conn_def open_session_def Let_def)

text \<open>
  The same with no call of the application after \<^verbatim>\<open>Close\<close>. The tick at time 200 finds the
  connection idle and starts \<^verbatim>\<open>go conn.sendKeepAlive()\<close>; the connection is closed before
  that goroutine runs; the goroutine then stores \<open>lastSend := 201\<close> and its keep-alive
  frame is accepted by the lingering session, so it does not close the connection again.
  The tick at time 225 keeps the closed connection in the list.
\<close>

lemma sendKeepAlive_after_Close_sample:
  "sendKeepAlive \<lparr>sess = \<lparr>rcv = [], snt = [[1]], wr_ok = True, close_scheduled = True\<rparr>,
      rdDataLeft = 0, lastSend = 0, lastReadStart = 0, lastWriteStart = 0\<rparr> 201 =
   \<lparr>sess = \<lparr>rcv = [], snt = [[1], [2]], wr_ok = True, close_scheduled = True\<rparr>,
      rdDataLeft = 0, lastSend = 201, lastReadStart = 0, lastWriteStart = 0\<rparr>"
  by (simp add: sendKeepAlive_def sess_Write_def kcpKeepAlive_def)

lemma sendKeepAlive_after_Close_keeps_conn_listed:
  "(let t1 = wrapKCPConn keepalive_transport 0 (open_session []) 1;
        (t2, gs2) = tick t1 200;
        t3 = conn_Close t2 0;
        t4 = conn_sendKeepAlive t3 0 201;
        (t5, gs5) = tick t4 225
    in conns t1 = Some [0] \<and> conns t2 = Some [0] \<and> gs2 = [GoSendKeepAlive 0]
       \<and> lastSend (heap t3 0) = 0 \<and> fst (tick t3 225) = t3\<lparr>conns := Some []\<rparr>
       \<and> lastSend (heap t4 0) = 201 \<and> conns t5 = Some [0] \<and> gs5 = [])"
  by (simp add: wrapKCPConn_def keepalive_transport_def conn_Close_def conn_sendKeepAlive_def
      tick_def scan_conn_def Close_sample [unfolded new_conn_def open_session_def]
      sendKeepAlive_after_Close_sample new_conn_def open_session_def Let_def)

subsection \<open>Write, then Read\<close>

lemma seg_read_skip_empty:
  "concat pre = [] \<Longrightarrow> seg_read k (pre @ r) = seg_read k r"
  by (induction pre) auto

lemma seg_read_one:
  assumes "concat pre @ s1 = y # ys" and "x \<noteq> []"
  shows "\<exists>pre' s1'. seg_read 1 (pre @ [s1 @ x] @ post) = Some ([y], pre' @ [s1' @ x] @ post)
                     \<and> concat pre' @ s1' = ys"
  using assms
proof (induction pre)
  case Nil
  then have s1: "s1 = y # ys" by simp
  have "seg_read 1 ([] @ [s1 @ x] @ post) = Some ([y], [] @ [ys @ x] @ post)"
    using s1 Nil.prems(2) by simp
  then show ?case by (intro exI [of _ "[]"] exI [of _ ys]) simp
next
  case (Cons p ps)
  show ?case
  proof (cases p)
    case Nil
    then have "concat ps @ s1 = y # ys" using Cons.prems by simp
    from Cons.IH [OF this Cons.prems(2)] Nil show ?thesis by simp
  next
    case (Cons z zs)
    then have y: "z = y" and ys: "zs @ concat ps @ s1 = ys"
      using Cons.prems by simp_all
    show ?thesis
    proof (cases zs)
      case Nil
      then have "seg_read 1 ((p # ps) @ [s1 @ x] @ post) = Some ([y], ps @ [s1 @ x] @ post)"
        using \<open>p = z # zs\<close> y by simp
      then show ?thesis using ys Nil by (intro exI [of _ ps] exI [of _ s1]) simp
    next
      case (Cons w ws)
      then have "seg_read 1 ((p # ps) @ [s1 @ x] @ post)
                 = Some ([y], (zs # ps) @ [s1 @ x] @ post)"
        using \<open>p = z # zs\<close> y by simp
      then show ?thesis using ys by (intro exI [of _ "zs # ps"] exI [of _ s1]) simp
    qed
  qed
qed

lemma seg_read_field:
  assumes "concat pre = []" and "length l4 = 4"
  shows "\<exists>r. seg_read 4 (pre @ [l4 @ s2] @ post) = Some (l4, r) \<and> concat r = s2 @ concat post"
proof -
  obtain a as where l: "l4 = a # as" using assms(2) by (cases l4) auto
  have "seg_read 4 ([l4 @ s2] @ post)
        = Some (l4, if length (l4 @ s2) \<le> 4 then post else drop 4 (l4 @ s2) # post)"
    using assms(2) l by simp
  then show ?thesis
    using seg_read_skip_empty [OF assms(1), of 4 "[l4 @ s2] @ post"] assms(2)
    by (cases "s2 = []") auto
qed

lemma read_seg:
  "seg_read k (rcv (sess c)) = Some (bs, r) \<Longrightarrow>
   read c k = (Inr bs, c\<lparr>sess := (sess c)\<lparr>rcv := r\<rparr>, lastReadStart := 0\<rparr>)"
  by (simp add: read_def sess_Read_def)

lemma Read_loop_header:
  assumes "rdDataLeft c = 0"
      and "rcv (sess c) = pre @ [s1 @ l4 @ s2] @ post"
      and "concat pre @ s1 = replicate k kcpKeepAlive @ [kcpDataPacket]"
      and "length l4 = 4" and "Uint32 l4 \<noteq> 0"
  shows "\<exists>c'. Read_loop c = Inr c' \<and> rdDataLeft c' = Uint32 l4
              \<and> concat (rcv (sess c')) = s2 @ concat post \<and> lastSend c' = lastSend c"
  using assms
proof (induction k arbitrary: c pre s1)
  case 0
  have x: "l4 @ s2 \<noteq> []" using 0(4) by auto
  from 0(3) have h: "concat pre @ s1 = kcpDataPacket # []" by simp
  from seg_read_one [OF h x, of post] obtain pre' s1'
    where r1: "seg_read 1 (pre @ [s1 @ l4 @ s2] @ post) = Some ([kcpDataPacket], pre' @ [s1' @ l4 @ s2] @ post)"
      and e: "concat pre' @ s1' = []"
    by auto
  let ?c1 = "c\<lparr>sess := (sess c)\<lparr>rcv := pre' @ [l4 @ s2] @ post\<rparr>, lastReadStart := 0\<rparr>"
  have rd1: "read c 1 = (Inr [kcpDataPacket], ?c1)"
    using read_seg [of 1 c "[kcpDataPacket]" "pre' @ [s1' @ l4 @ s2] @ post"] r1 0(2) e by simp
  from e have pe: "concat pre' = []" by simp
  from seg_read_field [OF pe 0(4), of s2 post] obtain r
    where r4: "seg_read 4 (pre' @ [l4 @ s2] @ post) = Some (l4, r)"
      and cr: "concat r = s2 @ concat post"
    by auto
  let ?c2 = "?c1\<lparr>sess := (sess ?c1)\<lparr>rcv := r\<rparr>, lastReadStart := 0\<rparr>"
  have rd4: "read ?c1 4 = (Inr l4, ?c2)"
    using read_seg [of 4 ?c1 l4 r] r4 by simp
  have "Read_loop c = Read_loop (?c2\<lparr>rdDataLeft := Uint32 l4\<rparr>)"
    using Read_loop_Data [OF 0(1) rd1 rd4 0(4)] .
  also have "\<dots> = Inr (?c2\<lparr>rdDataLeft := Uint32 l4\<rparr>)"
    using 0(5) by (intro Read_loop_nonzero) simp
  finally show ?case using cr by simp
next
  case (Suc k)
  have x: "l4 @ s2 \<noteq> []" using Suc(5) by auto
  from Suc(4) have h: "concat pre @ s1 = kcpKeepAlive # (replicate k kcpKeepAlive @ [kcpDataPacket])"
    by simp
  from seg_read_one [OF h x, of post] obtain pre' s1'
    where r1: "seg_read 1 (pre @ [s1 @ l4 @ s2] @ post) = Some ([kcpKeepAlive], pre' @ [s1' @ l4 @ s2] @ post)"
      and e: "concat pre' @ s1' = replicate k kcpKeepAlive @ [kcpDataPacket]"
    by auto
  let ?c1 = "c\<lparr>sess := (sess c)\<lparr>rcv := pre' @ [s1' @ l4 @ s2] @ post\<rparr>, lastReadStart := 0\<rparr>"
  have rd1: "read c 1 = (Inr [kcpKeepAlive], ?c1)"
    using read_seg [of 1 c "[kcpKeepAlive]" "pre' @ [s1' @ l4 @ s2] @ post"] r1 Suc(3) by simp
  have z: "rdDataLeft ?c1 = 0" using Suc(2) by simp
  have rc: "rcv (sess ?c1) = pre' @ [s1' @ l4 @ s2] @ post" by simp
  from Suc.IH [OF z rc e Suc(5) Suc(6)] obtain c'
    where "Read_loop ?c1 = Inr c'" "rdDataLeft c' = Uint32 l4"
      "concat (rcv (sess c')) = s2 @ concat post" "lastSend c' = lastSend ?c1"
    by auto
  then show ?case
    using Read_loop_KeepAlive [OF Suc(2) rd1] by simp
qed

lemma unat_of_nat32: "m < 2 ^ 32 \<Longrightarrow> unat (of_nat m :: 32 word) = m"
  by (simp add: unat_of_nat)

lemma of_nat32_nonzero: "0 < m \<Longrightarrow> m < 2 ^ 32 \<Longrightarrow> (of_nat m :: 32 word) \<noteq> 0"
  using unat_of_nat32 [of m] by auto

lemma ReadFull_zero: "ReadFull c lenb 0 = (Inr [], c)"
  by (simp add: ReadFull.simps [of c lenb 0])

lemma ReadFull_payload:
  assumes "Read_loop c = Inr c0" and "rdDataLeft c0 = of_nat m" and "m < 2 ^ 32"
      and "concat (rcv (sess c0)) = p @ rest" and "length p = m" and "0 < lenb"
  shows "\<exists>c'. ReadFull c lenb m = (Inr p, c')
           \<and> (0 < m \<longrightarrow> rdDataLeft c' = 0 \<and> concat (rcv (sess c')) = rest
                        \<and> lastSend c' = lastSend c0)"
  using assms
proof (induction m arbitrary: c c0 p rule: less_induct)
  case (less m)
  show ?case
  proof (cases "m = 0")
    case True
    then show ?thesis using less.prems(5) by (simp add: ReadFull_zero)
  next
    case False
    let ?k = "min lenb m"
    have kpos: "0 < ?k" using False less.prems(6) by simp
    have um: "unat (rdDataLeft c0) = m" using less.prems(2,3) by (simp add: unat_of_nat32)
    have ne: "concat (rcv (sess c0)) \<noteq> []" using less.prems(4,5) False by auto
    then obtain bs r where sr: "seg_read ?k (rcv (sess c0)) = Some (bs, r)"
      using seg_read_None [of ?k "rcv (sess c0)"] by (cases "seg_read ?k (rcv (sess c0))") auto
    have bne: "bs \<noteq> []" using seg_read_nonempty [OF sr kpos] .
    have ble: "length bs \<le> ?k" using seg_read_length [OF sr] .
    have cat: "p @ rest = bs @ concat r" using seg_read_concat [OF sr] less.prems(4) by simp
    have jm: "length bs \<le> m" using ble by simp
    have tk: "take (length bs) (p @ rest) = bs" using cat by simp
    then have tp: "take (length bs) p = bs" using jm less.prems(5) by simp
    define p' where "p' = drop (length bs) p"
    have p: "p = bs @ p'" using tp by (metis append_take_drop_id p'_def)
    have r: "concat r = p' @ rest" using cat p by simp
    let ?m' = "m - length bs"
    let ?c1 = "c0\<lparr>sess := (sess c0)\<lparr>rcv := r\<rparr>, lastReadStart := 0,
                  rdDataLeft := of_nat ?m'\<rparr>"
    have sub: "(of_nat m :: 32 word) - of_nat (length bs) = of_nat ?m'"
      using jm by simp
    have Rd: "Read c ?k = (Inr bs, ?c1)"
      using less.prems(1,2) um read_seg [OF sr] sub by (simp add: Read_def)
    have m'lt: "?m' < m" using bne False by (cases bs) auto
    show ?thesis
    proof (cases "?m' = 0")
      case True
      then have "length p' = 0" using p less.prems(5) jm by simp
      then have "p' = []" by simp
      moreover have "ReadFull ?c1 lenb ?m' = (Inr [], ?c1)"
        using True by (simp add: ReadFull_zero)
      ultimately show ?thesis
        using Rd bne False p r True by (simp add: ReadFull.simps [of c lenb m])
    next
      case nz: False
      have lp: "length p' = ?m'" using p less.prems(5) by simp
      have b32: "?m' < 2 ^ 32" using less.prems(3) by simp
      have loop: "Read_loop ?c1 = Inr ?c1"
        using of_nat32_nonzero [of ?m'] nz b32 by (intro Read_loop_nonzero) simp
      have rd: "rdDataLeft ?c1 = of_nat ?m'" by simp
      have cc: "concat (rcv (sess ?c1)) = p' @ rest" using r by simp
      from less.IH [OF m'lt loop rd b32 cc lp less.prems(6)] nz obtain c'
        where "ReadFull ?c1 lenb ?m' = (Inr p', c')" "rdDataLeft c' = 0"
          "concat (rcv (sess c')) = rest" "lastSend c' = lastSend ?c1"
        by auto
      then show ?thesis
        using Rd bne False p by (simp add: ReadFull.simps [of c lenb m])
    qed
  qed
qed

text \<open>
  The round trip when the length field arrives whole. \<^verbatim>\<open>Write(b)\<close> has succeeded. The peer
  is at a frame boundary and its session delivers \<open>k\<close> KeepAlive frames, the frame that
  \<^verbatim>\<open>Write\<close> emitted and then \<open>rest\<close>, cut into segments in any way that leaves the four
  length bytes in one segment. Then successive \<^verbatim>\<open>Read\<close>s with buffers of any size
  \<open>lenb > 0\<close> return exactly \<open>b\<close>, in order, and leave the peer at the frame boundary
  before \<open>rest\<close>, with \<open>lastSend\<close> untouched.
\<close>

theorem kcp_roundtrip:
  assumes "Write cw b now = (Inr n, cw')"
      and "rdDataLeft cr = 0"
      and "rcv (sess cr) = pre @ [s1 @ PutUint32 (of_nat (length b)) @ s2] @ post"
      and "concat pre @ s1 = replicate k kcpKeepAlive @ [kcpDataPacket]"
      and "s2 @ concat post = b @ rest"
      and "0 < lenb"
  shows "concat (rcv (sess cr)) = replicate k kcpKeepAlive @ last (snt (sess cw')) @ rest
       \<and> (\<exists>cr'. ReadFull cr lenb (length b) = (Inr b, cr')
              \<and> (b \<noteq> [] \<longrightarrow> rdDataLeft cr' = 0 \<and> concat (rcv (sess cr')) = rest
                                \<and> lastSend cr' = lastSend cr))"
proof
  have "concat (rcv (sess cr))
        = (concat pre @ s1) @ PutUint32 (of_nat (length b)) @ (s2 @ concat post)"
    using assms(3) by simp
  then show "concat (rcv (sess cr)) = replicate k kcpKeepAlive @ last (snt (sess cw')) @ rest"
    using Write_success(2) [OF assms(1)] assms(4,5) by simp
next
  show "\<exists>cr'. ReadFull cr lenb (length b) = (Inr b, cr')
          \<and> (b \<noteq> [] \<longrightarrow> rdDataLeft cr' = 0 \<and> concat (rcv (sess cr')) = rest
                            \<and> lastSend cr' = lastSend cr)"
  proof (cases "b = []")
    case True
    then show ?thesis by (simp add: ReadFull_zero)
  next
    case False
    let ?l4 = "PutUint32 (of_nat (length b))"
    have lim: "length b < 2 ^ 32" using Write_success(3) [OF assms(1)] by simp
    have l4: "length ?l4 = 4" by (simp add: PutUint32_def)
    have u: "Uint32 ?l4 = of_nat (length b)" by (rule Uint32_PutUint32)
    have nz: "Uint32 ?l4 \<noteq> 0" using False lim of_nat32_nonzero [of "length b"] u by simp
    from Read_loop_header [OF assms(2) assms(3) assms(4) l4 nz] obtain c0
      where c0: "Read_loop cr = Inr c0" "rdDataLeft c0 = Uint32 ?l4"
        "concat (rcv (sess c0)) = s2 @ concat post" "lastSend c0 = lastSend cr"
      by auto
    have rd: "rdDataLeft c0 = of_nat (length b)" using c0(2) u by simp
    have cc: "concat (rcv (sess c0)) = b @ rest" using c0(3) assms(5) by simp
    from ReadFull_payload [OF c0(1) rd lim cc refl assms(6)] False c0(4)
    show ?thesis by auto
  qed
qed

text \<open>A KeepAlive frame in a segment of its own, the header of a one-byte frame in the
  next, and the payload in a third segment together with a second KeepAlive frame.\<close>

theorem kcp_roundtrip_witness:
  "\<exists>cr'. ReadFull (new_conn (open_session [[2], [0, 0, 0, 0, 1], [65, 2]]) 3) 10 (length [65 :: byte])
            = (Inr [65], cr')
         \<and> rdDataLeft cr' = 0 \<and> concat (rcv (sess cr')) = [2]"
  using kcp_roundtrip [OF Write_sample, where cr = "new_conn (open_session [[2], [0, 0, 0, 0, 1], [65, 2]]) 3"
      and pre = "[[2]]" and ?s1.0 = "[0]" and ?s2.0 = "[]" and post = "[[65, 2]]" and k = 1
      and rest = "[2]" and lenb = 10]
  by (simp add: new_conn_def open_session_def PutUint32_def kcpKeepAlive_def kcpDataPacket_def)
    blast

section \<open>Properties of Dial\<close>

lemma dial_invariant:
  "dial_reach cx s \<Longrightarrow> (helper s \<noteq> Finished \<longrightarrow> resultCh s = []) \<and> length (resultCh s) \<le> 1"
proof (induction rule: dial_reach.induct)
  case (start cx)
  then show ?case by (simp add: dial_init_def)
next
  case (step cx s s')
  from step.hyps(2) step.IH show ?case
    by (cases rule: dial_step.cases) (auto simp: resultCh_cap_def)
qed

text \<open>
  Claim C9, as the code has it. In every state \<^verbatim>\<open>Dial\<close> can reach: when the caller is in
  its \<^verbatim>\<open>select\<close>, the context is done and no result has been delivered on the channel,
  the \<^verbatim>\<open>select\<close> can fire and every way it fires returns the context's error, whatever
  the dial has produced or will produce; and whenever the helper has a result to send,
  the channel is empty and the send can go ahead, also after the caller has returned.
\<close>

theorem Dial_cancelled_before_result:
  assumes "dial_reach cx s"
  shows "(caller s = None \<and> ctx_done s = Some e \<and> resultCh s = [] \<longrightarrow>
            (\<exists>s'. dial_step s s' \<and> caller s' = Some (ReturnCtxError e))
          \<and> (\<forall>s'. dial_step s s' \<and> caller s' \<noteq> None \<longrightarrow> caller s' = Some (ReturnCtxError e)))
       \<and> (helper s = Sending r \<longrightarrow>
            resultCh s = []
          \<and> dial_step s (s\<lparr>resultCh := resultCh s @ [r], helper := Finished\<rparr>))"
proof (intro conjI impI)
  assume h: "caller s = None \<and> ctx_done s = Some e \<and> resultCh s = []"
  then have "dial_step s (s\<lparr>caller := Some (ReturnCtxError e)\<rparr>)"
    by (auto intro: dial_step.select_ctx)
  then show "\<exists>s'. dial_step s s' \<and> caller s' = Some (ReturnCtxError e)"
    by (intro exI [of _ "s\<lparr>caller := Some (ReturnCtxError e)\<rparr>"]) simp
  show "\<forall>s'. dial_step s s' \<and> caller s' \<noteq> None \<longrightarrow> caller s' = Some (ReturnCtxError e)"
  proof (intro allI impI, elim conjE)
    fix s'
    assume "dial_step s s'" and "caller s' \<noteq> None"
    then show "caller s' = Some (ReturnCtxError e)"
      using h by (cases rule: dial_step.cases) auto
  qed
next
  assume s: "helper s = Sending r"
  with dial_invariant [OF assms] show e: "resultCh s = []" by simp
  with s show "dial_step s (s\<lparr>resultCh := resultCh s @ [r], helper := Finished\<rparr>)"
    by (intro dial_step.send) (simp_all add: resultCh_cap_def)
qed

lemma dial_sample_reach: "dial_reach None dial_sample"
proof -
  have 0: "dial_reach None (dial_init None)" by (rule dial_reach.start)
  have "dial_step (dial_init None) ((dial_init None)\<lparr>ctx_done := Some Canceled\<rparr>)"
    by (rule dial_step.cancel) (simp add: dial_init_def)
  with 0 have 1: "dial_reach None ((dial_init None)\<lparr>ctx_done := Some Canceled\<rparr>)"
    by (rule dial_reach.step)
  have "dial_step ((dial_init None)\<lparr>ctx_done := Some Canceled\<rparr>)
          ((dial_init None)\<lparr>ctx_done := Some Canceled\<rparr>\<lparr>helper := Sending (DialConn 0)\<rparr>)"
    by (rule dial_step.dial_done) (simp add: dial_init_def)
  with 1 have "dial_reach None ((dial_init None)\<lparr>ctx_done := Some Canceled\<rparr>\<lparr>helper := Sending (DialConn 0)\<rparr>)"
    by (rule dial_reach.step)
  then show ?thesis by (simp add: dial_init_def dial_sample_def)
qed

text \<open>The context is cancelled while the dial runs; then the dial succeeds.\<close>

theorem Dial_cancelled_before_result_witness:
  "dial_reach None dial_sample
   \<and> (\<exists>s'. dial_step dial_sample s' \<and> caller s' = Some (ReturnCtxError Canceled))
   \<and> dial_step dial_sample (dial_sample\<lparr>resultCh := [DialConn 0], helper := Finished\<rparr>)"
  using Dial_cancelled_before_result [OF dial_sample_reach, of Canceled "DialConn 0"] dial_sample_reach
  by (simp add: dial_sample_def)

text \<open>
  Claim C9 as stated fails when the result is delivered before the \<^verbatim>\<open>select\<close> fires: the
  context is done before \<^verbatim>\<open>Dial\<close> is called, the dial completes and its result is
  buffered, both cases of the \<^verbatim>\<open>select\<close> are ready, and the one that receives the result
  may be chosen. \<^verbatim>\<open>Dial\<close> then returns the connection.
\<close>

theorem Dial_returns_conn_after_cancel:
  "dial_reach (Some Canceled)
     \<lparr>helper = Finished, resultCh = [], ctx_done = Some Canceled, caller = Some (ReturnConn 0)\<rparr>"
proof -
  let ?s0 = "dial_init (Some Canceled)"
  let ?s1 = "?s0\<lparr>helper := Sending (DialConn 0)\<rparr>"
  let ?s2 = "?s1\<lparr>resultCh := resultCh ?s1 @ [DialConn 0], helper := Finished\<rparr>"
  let ?s3 = "?s2\<lparr>resultCh := [], caller := Some (return_of (DialConn 0))\<rparr>"
  have r0: "dial_reach (Some Canceled) ?s0" by (rule dial_reach.start)
  have "dial_step ?s0 ?s1" by (rule dial_step.dial_done) (simp add: dial_init_def)
  with r0 have r1: "dial_reach (Some Canceled) ?s1" by (rule dial_reach.step)
  have "dial_step ?s1 ?s2"
    by (rule dial_step.send) (simp_all add: dial_init_def resultCh_cap_def)
  with r1 have r2: "dial_reach (Some Canceled) ?s2" by (rule dial_reach.step)
  have "dial_step ?s2 ?s3"
    by (rule dial_step.select_result) (simp_all add: dial_init_def)
  with r2 have "dial_reach (Some Canceled) ?s3" by (rule dial_reach.step)
  then show ?thesis by (simp add: dial_init_def return_of_def)
qed

section \<open>Properties of the relay\<close>

subsection \<open>doRelay\<close>

lemma relay_invariant:
  "relay_reach cx s \<Longrightarrow>
     (pc s = AtWait \<longrightarrow> upRWC_closes s = 0 \<and> downRWC_closes s = 0 \<and> monitor_closes s = 0)
   \<and> (pc s = AtCloseUp \<longrightarrow> upRWC_closes s = 0 \<and> downRWC_closes s = 0 \<and> monitor_closes s = 0)
   \<and> (pc s = AtCloseDown \<longrightarrow> upRWC_closes s = 1 \<and> downRWC_closes s = 0 \<and> monitor_closes s = 0)
   \<and> (pc s = AtMonitorClose \<longrightarrow> upRWC_closes s = 1 \<and> downRWC_closes s = 1 \<and> monitor_closes s = 0)
   \<and> (pc s = Done \<longrightarrow> upRWC_closes s = 1 \<and> downRWC_closes s = 1 \<and> monitor_closes s = 1)
   \<and> (pc s \<noteq> AtWait \<longrightarrow> relayCtx_done s)
   \<and> (upload s = Exited \<or> download s = Exited \<longrightarrow> relayCtx_done s)"
proof (induction rule: relay_reach.induct)
  case (relay_start cx)
  then show ?case by (simp add: relay_init_def)
next
  case (relay_next cx s s')
  from relay_next.hyps(2) relay_next.IH show ?case
    by (cases rule: relay_step.cases) auto
qed

lemma relay_runs_to_Done:
  assumes "relayCtx_done s"
  shows "\<exists>s'. rtranclp relay_step s s' \<and> pc s' = Done"
proof -
  have d: "\<exists>s'. rtranclp relay_step s s' \<and> pc s' = Done" if "pc s = Done" for s
    using that by blast
  have m: "\<exists>s'. rtranclp relay_step s s' \<and> pc s' = Done" if "pc s = AtMonitorClose" for s
  proof -
    have "relay_step s (s\<lparr>pc := Done, monitor_closes := Suc (monitor_closes s)\<rparr>)"
      using that by (rule relay_step.monitor_close)
    then show ?thesis by (intro exI [of _ "s\<lparr>pc := Done, monitor_closes := Suc (monitor_closes s)\<rparr>"]) auto
  qed
  have cd: "\<exists>s'. rtranclp relay_step s s' \<and> pc s' = Done" if "pc s = AtCloseDown" for s
  proof -
    let ?t = "s\<lparr>pc := AtMonitorClose, downRWC_closes := Suc (downRWC_closes s)\<rparr>"
    have "relay_step s ?t" using that by (rule relay_step.close_down)
    moreover obtain s' where "rtranclp relay_step ?t s'" "pc s' = Done"
      using m [of ?t] by auto
    ultimately show ?thesis by (meson converse_rtranclp_into_rtranclp)
  qed
  have cu: "\<exists>s'. rtranclp relay_step s s' \<and> pc s' = Done" if "pc s = AtCloseUp" for s
  proof -
    let ?t = "s\<lparr>pc := AtCloseDown, upRWC_closes := Suc (upRWC_closes s)\<rparr>"
    have "relay_step s ?t" using that by (rule relay_step.close_up)
    moreover obtain s' where "rtranclp relay_step ?t s'" "pc s' = Done"
      using cd [of ?t] by auto
    ultimately show ?thesis by (meson converse_rtranclp_into_rtranclp)
  qed
  have w: "\<exists>s'. rtranclp relay_step s s' \<and> pc s' = Done" if "pc s = AtWait" "relayCtx_done s" for s
  proof -
    let ?t = "s\<lparr>pc := AtCloseUp\<rparr>"
    have "relay_step s ?t" using that by (intro relay_step.wake)
    moreover obtain s' where "rtranclp relay_step ?t s'" "pc s' = Done"
      using cu [of ?t] by auto
    ultimately show ?thesis by (meson converse_rtranclp_into_rtranclp)
  qed
  show ?thesis
    using assms d m cd cu w by (cases "pc s") auto
qed

lemma relay_path_reach:
  "relay_reach cx s \<Longrightarrow> relay_path s ts \<Longrightarrow> relay_reach cx (last (s # ts))"
proof (induction ts arbitrary: s)
  case Nil
  then show ?case by simp
next
  case (Cons t ts)
  from Cons.prems have "relay_reach cx t" and "relay_path t ts"
    by (auto intro: relay_reach.relay_next)
  from Cons.IH [OF this] show ?case by simp
qed

lemma doRelay_run_path:
  assumes "pc s = AtWait" and "relayCtx_done s"
  shows "relay_path s (doRelay_run s)"
    and "pc (last (doRelay_run s)) = Done"
    and "upRWC_closes (last (doRelay_run s)) = Suc (upRWC_closes s)"
    and "downRWC_closes (last (doRelay_run s)) = Suc (downRWC_closes s)"
    and "monitor_closes (last (doRelay_run s)) = Suc (monitor_closes s)"
proof -
  let ?s1 = "s\<lparr>pc := AtCloseUp\<rparr>"
  let ?s2 = "?s1\<lparr>pc := AtCloseDown, upRWC_closes := Suc (upRWC_closes ?s1)\<rparr>"
  let ?s3 = "?s2\<lparr>pc := AtMonitorClose, downRWC_closes := Suc (downRWC_closes ?s2)\<rparr>"
  let ?s4 = "?s3\<lparr>pc := Done, monitor_closes := Suc (monitor_closes ?s3)\<rparr>"
  have r: "doRelay_run s = [?s1, ?s2, ?s3, ?s4]" by (simp add: doRelay_run_def Let_def)
  have 1: "relay_step s ?s1" using assms by (rule relay_step.wake)
  have 2: "relay_step ?s1 ?s2" by (rule relay_step.close_up) simp
  have 3: "relay_step ?s2 ?s3" by (rule relay_step.close_down) simp
  have 4: "relay_step ?s3 ?s4" by (rule relay_step.monitor_close) simp
  show "relay_path s (doRelay_run s)" unfolding r using 1 2 3 4 by simp
  show "pc (last (doRelay_run s)) = Done" unfolding r by simp
  show "upRWC_closes (last (doRelay_run s)) = Suc (upRWC_closes s)" unfolding r by simp
  show "downRWC_closes (last (doRelay_run s)) = Suc (downRWC_closes s)" unfolding r by simp
  show "monitor_closes (last (doRelay_run s)) = Suc (monitor_closes s)" unfolding r by simp
qed

text \<open>
  Claim C2. In every state \<^verbatim>\<open>doRelay\<close> can reach, however the halves end (source
  end-of-stream, I/O error, short write: \<open>x\<close> below is any of them) and whenever the
  context is cancelled: no endpoint and not the tunnel monitor is closed more than once;
  when \<^verbatim>\<open>doRelay\<close> has returned, \<^verbatim>\<open>upRWC\<close>, \<^verbatim>\<open>downRWC\<close> and the tunnel monitor have each
  been closed exactly once; a half that has ended has cancelled the relay context; the
  wait ends only when the context is done, and a done context lets the wait go on; once
  the context is done \<^verbatim>\<open>doRelay\<close> can run to its return. A half that is copying can
  end in each of the three ways; a half that has returned from \<^verbatim>\<open>relayHalf\<close>, in whichever
  way, takes its next step by cancelling the relay context; and from the wait, the context
  once done, and so also from the moment either half has returned, the run written out in
  \<open>doRelay_run\<close> is a run of \<^verbatim>\<open>doRelay\<close> that ends with \<^verbatim>\<open>doRelay\<close> returned and each of
  the three closed exactly once.
\<close>

theorem doRelay_closes_once:
  assumes "relay_reach cx s"
  shows "upRWC_closes s \<le> 1 \<and> downRWC_closes s \<le> 1 \<and> monitor_closes s \<le> 1
       \<and> (pc s = Done \<longrightarrow> upRWC_closes s = 1 \<and> downRWC_closes s = 1 \<and> monitor_closes s = 1)
       \<and> (upload s = Exited \<or> download s = Exited \<longrightarrow> relayCtx_done s)
       \<and> (pc s \<noteq> AtWait \<longrightarrow> relayCtx_done s)
       \<and> (pc s = AtWait \<and> relayCtx_done s \<longrightarrow> relay_step s (s\<lparr>pc := AtCloseUp\<rparr>))
       \<and> (relayCtx_done s \<longrightarrow> (\<exists>s'. rtranclp relay_step s s' \<and> pc s' = Done))
       \<and> (upload s = Copying \<longrightarrow> relay_step s (s\<lparr>upload := Returned x\<rparr>))
       \<and> (download s = Copying \<longrightarrow> relay_step s (s\<lparr>download := Returned x\<rparr>))
       \<and> (upload s = Returned x \<longrightarrow>
            relay_step s (upload_exits s) \<and> relayCtx_done (upload_exits s))
       \<and> (download s = Returned x \<longrightarrow>
            relay_step s (download_exits s) \<and> relayCtx_done (download_exits s))
       \<and> (pc s = AtWait \<and> relayCtx_done s \<longrightarrow>
            relay_path s (doRelay_run s)
          \<and> pc (last (doRelay_run s)) = Done
          \<and> upRWC_closes (last (doRelay_run s)) = 1
          \<and> downRWC_closes (last (doRelay_run s)) = 1
          \<and> monitor_closes (last (doRelay_run s)) = 1)
       \<and> (pc s = AtWait \<and> upload s = Returned x \<longrightarrow>
            relay_path s (upload_exits s # doRelay_run (upload_exits s))
          \<and> pc (last (doRelay_run (upload_exits s))) = Done
          \<and> upRWC_closes (last (doRelay_run (upload_exits s))) = 1
          \<and> downRWC_closes (last (doRelay_run (upload_exits s))) = 1
          \<and> monitor_closes (last (doRelay_run (upload_exits s))) = 1)
       \<and> (pc s = AtWait \<and> download s = Returned x \<longrightarrow>
            relay_path s (download_exits s # doRelay_run (download_exits s))
          \<and> pc (last (doRelay_run (download_exits s))) = Done
          \<and> upRWC_closes (last (doRelay_run (download_exits s))) = 1
          \<and> downRWC_closes (last (doRelay_run (download_exits s))) = 1
          \<and> monitor_closes (last (doRelay_run (download_exits s))) = 1)"
proof -
  note inv = relay_invariant [OF assms]
  have c: "upRWC_closes s \<le> 1 \<and> downRWC_closes s \<le> 1 \<and> monitor_closes s \<le> 1"
    using inv by (cases "pc s") auto
  have w: "pc s = AtWait \<and> relayCtx_done s \<longrightarrow> relay_step s (s\<lparr>pc := AtCloseUp\<rparr>)"
    by (auto intro: relay_step.wake)
  have old: "upRWC_closes s \<le> 1 \<and> downRWC_closes s \<le> 1 \<and> monitor_closes s \<le> 1
       \<and> (pc s = Done \<longrightarrow> upRWC_closes s = 1 \<and> downRWC_closes s = 1 \<and> monitor_closes s = 1)
       \<and> (upload s = Exited \<or> download s = Exited \<longrightarrow> relayCtx_done s)
       \<and> (pc s \<noteq> AtWait \<longrightarrow> relayCtx_done s)
       \<and> (pc s = AtWait \<and> relayCtx_done s \<longrightarrow> relay_step s (s\<lparr>pc := AtCloseUp\<rparr>))
       \<and> (relayCtx_done s \<longrightarrow> (\<exists>s'. rtranclp relay_step s s' \<and> pc s' = Done))"
    using c w inv relay_runs_to_Done [of s] by blast
  have ur: "upload s = Copying \<longrightarrow> relay_step s (s\<lparr>upload := Returned x\<rparr>)"
    by (auto intro: relay_step.upload_returns)
  have dr: "download s = Copying \<longrightarrow> relay_step s (s\<lparr>download := Returned x\<rparr>)"
    by (auto intro: relay_step.download_returns)
  have uc: "upload s = Returned x \<longrightarrow>
            relay_step s (upload_exits s) \<and> relayCtx_done (upload_exits s)"
    by (auto simp: upload_exits_def intro: relay_step.upload_cancels)
  have dc: "download s = Returned x \<longrightarrow>
            relay_step s (download_exits s) \<and> relayCtx_done (download_exits s)"
    by (auto simp: download_exits_def intro: relay_step.download_cancels)
  have run: "relay_path t (doRelay_run t)
          \<and> pc (last (doRelay_run t)) = Done
          \<and> upRWC_closes (last (doRelay_run t)) = 1
          \<and> downRWC_closes (last (doRelay_run t)) = 1
          \<and> monitor_closes (last (doRelay_run t)) = 1"
    if "pc t = AtWait" "relayCtx_done t"
       "upRWC_closes t = 0" "downRWC_closes t = 0" "monitor_closes t = 0" for t
    using doRelay_run_path [OF that(1,2)] that(3-5) by simp
  have r0: "pc s = AtWait \<and> relayCtx_done s \<longrightarrow>
            relay_path s (doRelay_run s)
          \<and> pc (last (doRelay_run s)) = Done
          \<and> upRWC_closes (last (doRelay_run s)) = 1
          \<and> downRWC_closes (last (doRelay_run s)) = 1
          \<and> monitor_closes (last (doRelay_run s)) = 1"
    using run [of s] inv by simp
  have r1: "pc s = AtWait \<and> upload s = Returned x \<longrightarrow>
            relay_path s (upload_exits s # doRelay_run (upload_exits s))
          \<and> pc (last (doRelay_run (upload_exits s))) = Done
          \<and> upRWC_closes (last (doRelay_run (upload_exits s))) = 1
          \<and> downRWC_closes (last (doRelay_run (upload_exits s))) = 1
          \<and> monitor_closes (last (doRelay_run (upload_exits s))) = 1"
  proof (intro impI, elim conjE)
    assume p: "pc s = AtWait" and u: "upload s = Returned x"
    have st: "relay_step s (upload_exits s)" using uc u by blast
    have "relay_path (upload_exits s) (doRelay_run (upload_exits s))
          \<and> pc (last (doRelay_run (upload_exits s))) = Done
          \<and> upRWC_closes (last (doRelay_run (upload_exits s))) = 1
          \<and> downRWC_closes (last (doRelay_run (upload_exits s))) = 1
          \<and> monitor_closes (last (doRelay_run (upload_exits s))) = 1"
      using p inv by (intro run) (simp_all add: upload_exits_def)
    with st show "relay_path s (upload_exits s # doRelay_run (upload_exits s))
          \<and> pc (last (doRelay_run (upload_exits s))) = Done
          \<and> upRWC_closes (last (doRelay_run (upload_exits s))) = 1
          \<and> downRWC_closes (last (doRelay_run (upload_exits s))) = 1
          \<and> monitor_closes (last (doRelay_run (upload_exits s))) = 1"
      by simp
  qed
  have r2: "pc s = AtWait \<and> download s = Returned x \<longrightarrow>
            relay_path s (download_exits s # doRelay_run (download_exits s))
          \<and> pc (last (doRelay_run (download_exits s))) = Done
          \<and> upRWC_closes (last (doRelay_run (download_exits s))) = 1
          \<and> downRWC_closes (last (doRelay_run (download_exits s))) = 1
          \<and> monitor_closes (last (doRelay_run (download_exits s))) = 1"
  proof (intro impI, elim conjE)
    assume p: "pc s = AtWait" and u: "download s = Returned x"
    have st: "relay_step s (download_exits s)" using dc u by blast
    have "relay_path (download_exits s) (doRelay_run (download_exits s))
          \<and> pc (last (doRelay_run (download_exits s))) = Done
          \<and> upRWC_closes (last (doRelay_run (download_exits s))) = 1
          \<and> downRWC_closes (last (doRelay_run (download_exits s))) = 1
          \<and> monitor_closes (last (doRelay_run (download_exits s))) = 1"
      using p inv by (intro run) (simp_all add: download_exits_def)
    with st show "relay_path s (download_exits s # doRelay_run (download_exits s))
          \<and> pc (last (doRelay_run (download_exits s))) = Done
          \<and> upRWC_closes (last (doRelay_run (download_exits s))) = 1
          \<and> downRWC_closes (last (doRelay_run (download_exits s))) = 1
          \<and> monitor_closes (last (doRelay_run (download_exits s))) = 1"
      by simp
  qed
  from old ur dr uc dc r0 r1 r2 show ?thesis by blast
qed

lemma relay_sample_reach: "relay_reach False relay_sample"
proof -
  let ?s0 = "relay_init False"
  let ?s1 = "?s0\<lparr>upload := Returned SourceEOF\<rparr>"
  let ?s2 = "?s1\<lparr>upload := Exited, relayCtx_done := True\<rparr>"
  let ?s3 = "?s2\<lparr>pc := AtCloseUp\<rparr>"
  let ?s4 = "?s3\<lparr>pc := AtCloseDown, upRWC_closes := Suc (upRWC_closes ?s3)\<rparr>"
  let ?s5 = "?s4\<lparr>pc := AtMonitorClose, downRWC_closes := Suc (downRWC_closes ?s4)\<rparr>"
  let ?s6 = "?s5\<lparr>pc := Done, monitor_closes := Suc (monitor_closes ?s5)\<rparr>"
  have r0: "relay_reach False ?s0" by (rule relay_reach.relay_start)
  have "relay_step ?s0 ?s1" by (rule relay_step.upload_returns) (simp add: relay_init_def)
  with r0 have r1: "relay_reach False ?s1" by (rule relay_reach.relay_next)
  have "relay_step ?s1 ?s2" by (rule relay_step.upload_cancels [of _ SourceEOF]) simp
  with r1 have r2: "relay_reach False ?s2" by (rule relay_reach.relay_next)
  have "relay_step ?s2 ?s3" by (rule relay_step.wake) (simp_all add: relay_init_def)
  with r2 have r3: "relay_reach False ?s3" by (rule relay_reach.relay_next)
  have "relay_step ?s3 ?s4" by (rule relay_step.close_up) simp
  with r3 have r4: "relay_reach False ?s4" by (rule relay_reach.relay_next)
  have "relay_step ?s4 ?s5" by (rule relay_step.close_down) simp
  with r4 have r5: "relay_reach False ?s5" by (rule relay_reach.relay_next)
  have "relay_step ?s5 ?s6" by (rule relay_step.monitor_close) simp
  with r5 have "relay_reach False ?s6" by (rule relay_reach.relay_next)
  then show ?thesis by (simp add: relay_init_def relay_sample_def)
qed


lemma relay_io_sample_reach: "relay_reach False relay_io_sample"
proof -
  have "relay_step (relay_init False) ((relay_init False)\<lparr>upload := Returned IOFailure\<rparr>)"
    by (rule relay_step.upload_returns) (simp add: relay_init_def)
  with relay_reach.relay_start [of False]
  have "relay_reach False ((relay_init False)\<lparr>upload := Returned IOFailure\<rparr>)"
    by (rule relay_reach.relay_next)
  then show ?thesis by (simp add: relay_init_def relay_io_sample_def)
qed

lemma relay_short_sample_reach: "relay_reach False relay_short_sample"
proof -
  have "relay_step (relay_init False) ((relay_init False)\<lparr>download := Returned ShortWrite\<rparr>)"
    by (rule relay_step.download_returns) (simp add: relay_init_def)
  with relay_reach.relay_start [of False]
  have "relay_reach False ((relay_init False)\<lparr>download := Returned ShortWrite\<rparr>)"
    by (rule relay_reach.relay_next)
  then show ?thesis by (simp add: relay_init_def relay_short_sample_def)
qed

text \<open>A run in which the upload half sees end-of-stream first; a relay whose context
  is done from the start; one whose upload half has met an I/O error, and one whose
  download half has met a short write, neither having cancelled yet.\<close>

theorem doRelay_closes_once_witness:
  "relay_reach False relay_sample \<and> pc relay_sample = Done \<and> upload relay_sample = Exited
   \<and> upRWC_closes relay_sample = 1 \<and> downRWC_closes relay_sample = 1
   \<and> monitor_closes relay_sample = 1 \<and> relayCtx_done relay_sample
   \<and> relay_reach True (relay_init True) \<and> pc (relay_init True) = AtWait
   \<and> relay_step (relay_init True) ((relay_init True)\<lparr>pc := AtCloseUp\<rparr>)
   \<and> (\<exists>s'. rtranclp relay_step (relay_init True) s' \<and> pc s' = Done)
   \<and> relay_path (relay_init True) (doRelay_run (relay_init True))
   \<and> pc (last (doRelay_run (relay_init True))) = Done
   \<and> upload (relay_init False) = Copying \<and> download (relay_init False) = Copying
   \<and> relay_step (relay_init False) ((relay_init False)\<lparr>upload := Returned IOFailure\<rparr>)
   \<and> relay_step (relay_init False) ((relay_init False)\<lparr>download := Returned ShortWrite\<rparr>)
   \<and> relay_reach False relay_io_sample \<and> pc relay_io_sample = AtWait
   \<and> upload relay_io_sample = Returned IOFailure \<and> \<not> relayCtx_done relay_io_sample
   \<and> relay_step relay_io_sample (upload_exits relay_io_sample)
   \<and> relayCtx_done (upload_exits relay_io_sample)
   \<and> relay_path relay_io_sample
        (upload_exits relay_io_sample # doRelay_run (upload_exits relay_io_sample))
   \<and> pc (last (doRelay_run (upload_exits relay_io_sample))) = Done
   \<and> upRWC_closes (last (doRelay_run (upload_exits relay_io_sample))) = 1
   \<and> downRWC_closes (last (doRelay_run (upload_exits relay_io_sample))) = 1
   \<and> monitor_closes (last (doRelay_run (upload_exits relay_io_sample))) = 1
   \<and> relay_reach False relay_short_sample \<and> pc relay_short_sample = AtWait
   \<and> download relay_short_sample = Returned ShortWrite \<and> \<not> relayCtx_done relay_short_sample
   \<and> relay_step relay_short_sample (download_exits relay_short_sample)
   \<and> relayCtx_done (download_exits relay_short_sample)
   \<and> relay_path relay_short_sample
        (download_exits relay_short_sample # doRelay_run (download_exits relay_short_sample))
   \<and> pc (last (doRelay_run (download_exits relay_short_sample))) = Done
   \<and> upRWC_closes (last (doRelay_run (download_exits relay_short_sample))) = 1
   \<and> downRWC_closes (last (doRelay_run (download_exits relay_short_sample))) = 1
   \<and> monitor_closes (last (doRelay_run (download_exits relay_short_sample))) = 1"
proof -
  have s: "pc relay_sample = Done" "relayCtx_done relay_sample" "upload relay_sample = Exited"
    by (simp_all add: relay_sample_def)
  have i: "pc (relay_init cx) = AtWait" "relayCtx_done (relay_init cx) = cx"
    "upload (relay_init cx) = Copying" "download (relay_init cx) = Copying" for cx
    by (simp_all add: relay_init_def)
  have u: "pc relay_io_sample = AtWait" "upload relay_io_sample = Returned IOFailure"
    "\<not> relayCtx_done relay_io_sample"
    by (simp_all add: relay_io_sample_def)
  have d: "pc relay_short_sample = AtWait" "download relay_short_sample = Returned ShortWrite"
    "\<not> relayCtx_done relay_short_sample"
    by (simp_all add: relay_short_sample_def)
  show ?thesis
    using doRelay_closes_once [OF relay_sample_reach, where x = SourceEOF] relay_sample_reach
      doRelay_closes_once [OF relay_reach.relay_start [of True], where x = SourceEOF]
      relay_reach.relay_start [of True]
      doRelay_closes_once [OF relay_reach.relay_start [of False], where x = IOFailure]
      doRelay_closes_once [OF relay_reach.relay_start [of False], where x = ShortWrite]
      doRelay_closes_once [OF relay_io_sample_reach, where x = IOFailure] relay_io_sample_reach
      doRelay_closes_once [OF relay_short_sample_reach, where x = ShortWrite]
      relay_short_sample_reach
    by (simp add: s i u d)
qed

section \<open>Properties of the dispatcher\<close>

lemmas dispatch_defs = processOneRequest_def select_and_connect_def match_target_def Intn_def
  is_Success_or_Fail_def is_Request_def is_Match_def is_Success_def is_OpenTunnelMonitor_def
  is_AddError_def Let_def

lemma match_target_upstreams:
  "app_ok t \<Longrightarrow> match_target (ruleMatcher t) a = Some (lookup, ruleName, matched) \<Longrightarrow>
   set matched \<subseteq> dom (upstreams t)"
  by (cases a) (auto simp: match_target_def app_ok_def; metis snd_conv subsetD domD)+

lemma select_and_connect_one:
  "select_and_connect t req ds rnd lookup ruleName cands = (evs, Returns) \<Longrightarrow>
   \<not> is_Success_or_Fail lookup \<Longrightarrow> length (filter is_Success_or_Fail evs) = 1"
  by (auto simp: select_and_connect_def is_Success_or_Fail_def Let_def
      split: option.splits sum.splits prod.splits)

lemma select_and_connect_Returns:
  "cands \<noteq> [] \<Longrightarrow> set cands \<subseteq> dom (upstreams t) \<Longrightarrow>
   snd (select_and_connect t req ds rnd lookup ruleName cands) = Returns"
proof -
  assume ne: "cands \<noteq> []" and sub: "set cands \<subseteq> dom (upstreams t)"
  then have "cands ! (rnd mod length cands) \<in> set cands" by simp
  with sub obtain up where "upstreams t (cands ! (rnd mod length cands)) = Some up" by blast
  with ne show ?thesis
    by (auto simp: select_and_connect_def Intn_def Let_def split: sum.splits prod.splits)
qed

lemma match_target_lookup:
  "match_target m a = Some (lookup, ruleName, matched) \<Longrightarrow> \<not> is_Success_or_Fail lookup"
  by (cases a) (auto simp: match_target_def is_Success_or_Fail_def)

text \<open>
  Claim C3. Whenever \<^verbatim>\<open>processOneRequest\<close> returns (unsupported address variant, rule
  denial, connect failure, or connect and relay), exactly one of the calls it made is a
  \<^verbatim>\<open>Success\<close> or a \<^verbatim>\<open>Fail\<close>; and for an application that passed the checks of
  \<^verbatim>\<open>NewThestralApp\<close> it always returns.
\<close>

theorem exactly_one_Success_or_Fail:
  "(snd (processOneRequest t req ds rnd) = Returns \<longrightarrow>
      length (filter is_Success_or_Fail (fst (processOneRequest t req ds rnd))) = 1)
 \<and> (app_ok t \<longrightarrow> snd (processOneRequest t req ds rnd) = Returns)"
proof (intro conjI impI)
  assume r: "snd (processOneRequest t req ds rnd) = Returns"
  show "length (filter is_Success_or_Fail (fst (processOneRequest t req ds rnd))) = 1"
  proof (cases "match_target (ruleMatcher t) (TargetAddr req)")
    case None
    then show ?thesis by (simp add: processOneRequest_def is_Success_or_Fail_def)
  next
    case (Some m)
    obtain lookup ruleName matched where m: "m = (lookup, ruleName, matched)" by (cases m)
    note nl = match_target_lookup [OF Some [unfolded m]]
    show ?thesis
    proof (cases "ruleName \<noteq> [] \<and> matched = []")
      case True
      then show ?thesis using Some m nl by (simp add: processOneRequest_def is_Success_or_Fail_def)
    next
      case False
      let ?c = "if ruleName = [] then upstreamNames t else matched"
      have eq: "processOneRequest t req ds rnd = select_and_connect t req ds rnd lookup ruleName ?c"
        using False Some m by (auto simp: processOneRequest_def)
      obtain evs where e: "select_and_connect t req ds rnd lookup ruleName ?c = (evs, Returns)"
        using r eq by (metis prod.collapse)
      from select_and_connect_one [OF e nl] eq e show ?thesis by simp
    qed
  qed
next
  assume ok: "app_ok t"
  show "snd (processOneRequest t req ds rnd) = Returns"
  proof (cases "match_target (ruleMatcher t) (TargetAddr req)")
    case None
    then show ?thesis by (simp add: processOneRequest_def)
  next
    case (Some m)
    obtain lookup ruleName matched where m: "m = (lookup, ruleName, matched)" by (cases m)
    have sub: "set matched \<subseteq> dom (upstreams t)"
      using match_target_upstreams [OF ok Some [unfolded m]] .
    show ?thesis
      using Some m sub ok select_and_connect_Returns [of "upstreamNames t" t req ds rnd lookup ruleName]
        select_and_connect_Returns [of matched t req ds rnd lookup ruleName]
      by (auto simp: processOneRequest_def app_ok_def)
  qed
qed

lemma sample_app_ok: "app_ok sample_app"
  by (simp add: app_ok_def sample_app_def)

text \<open>A domain target on the sample application, first upstream chosen.\<close>

theorem exactly_one_Success_or_Fail_witness:
  "app_ok sample_app
   \<and> processOneRequest sample_app \<lparr>TargetAddr = DomainNameAddr ''example.com'' 80\<rparr> ''socks'' 0
       = ([CallMatchDomain ''example.com'', Log ''upstream selected'',
           CallRequest ''u1'' (DomainNameAddr ''example.com'' 80), Log ''connection failed'',
           CallFail \<lparr>Error = Some ''i/o timeout'', ErrType = ProxyTimeout\<rparr>, CallAddError ''u1''],
          Returns)
   \<and> length (filter is_Success_or_Fail
        (fst (processOneRequest sample_app \<lparr>TargetAddr = DomainNameAddr ''example.com'' 80\<rparr> ''socks'' 0))) = 1"
proof -
  have e: "processOneRequest sample_app \<lparr>TargetAddr = DomainNameAddr ''example.com'' 80\<rparr> ''socks'' 0
       = ([CallMatchDomain ''example.com'', Log ''upstream selected'',
           CallRequest ''u1'' (DomainNameAddr ''example.com'' 80), Log ''connection failed'',
           CallFail \<lparr>Error = Some ''i/o timeout'', ErrType = ProxyTimeout\<rparr>, CallAddError ''u1''],
          Returns)"
    by (simp add: dispatch_defs sample_app_def failing_upstream_def)
  then have r: "snd (processOneRequest sample_app \<lparr>TargetAddr = DomainNameAddr ''example.com'' 80\<rparr> ''socks'' 0) = Returns"
    by simp
  show ?thesis
    using exactly_one_Success_or_Fail [of sample_app "\<lparr>TargetAddr = DomainNameAddr ''example.com'' 80\<rparr>" "''socks''" 0]
      sample_app_ok e r by simp
qed

text \<open>
  Claim C7. A target that is neither an IPv4, an IPv6 nor a domain-name endpoint is
  failed with \<open>ProxyAddrUnsupported\<close> and no lookup is made. When the matcher returns the
  empty rule name the candidates are the whole of \<open>upstreamNames\<close>: each of its entries is
  the one contacted for some draw, and no other upstream is ever contacted. When the
  matcher returns a rule name and no upstream, the request is failed with
  \<open>ProxyNotAllowed\<close> and no upstream is contacted.
\<close>

theorem upstream_selection:
  "(TargetAddr req = OtherAddr x \<longrightarrow>
      processOneRequest t req ds rnd =
        ([Log ''unknown target address'', CallFail \<lparr>Error = None, ErrType = ProxyAddrUnsupported\<rparr>],
         Returns)
      \<and> filter is_Match (fst (processOneRequest t req ds rnd)) = [])
 \<and> (match_target (ruleMatcher t) (TargetAddr req) = Some (lookup, [], matched)
      \<and> i < length (upstreamNames t) \<and> upstreams t (upstreamNames t ! i) = Some up \<longrightarrow>
      filter is_Request (fst (processOneRequest t req ds i))
        = [CallRequest (upstreamNames t ! i) (TargetAddr req)])
 \<and> (match_target (ruleMatcher t) (TargetAddr req) = Some (lookup, [], matched)
      \<and> CallRequest u a \<in> set (fst (processOneRequest t req ds rnd)) \<longrightarrow>
      u \<in> set (upstreamNames t))
 \<and> (match_target (ruleMatcher t) (TargetAddr req) = Some (lookup, ruleName, [])
      \<and> ruleName \<noteq> [] \<longrightarrow>
      processOneRequest t req ds rnd =
        ([lookup, Log ''request rejected by rule'',
          CallFail \<lparr>Error = None, ErrType = ProxyNotAllowed\<rparr>], Returns)
      \<and> filter is_Request (fst (processOneRequest t req ds rnd)) = [])"
proof (intro conjI impI)
  assume "TargetAddr req = OtherAddr x"
  then show "processOneRequest t req ds rnd =
        ([Log ''unknown target address'', CallFail \<lparr>Error = None, ErrType = ProxyAddrUnsupported\<rparr>],
         Returns)"
    and "filter is_Match (fst (processOneRequest t req ds rnd)) = []"
    by (simp_all add: processOneRequest_def match_target_def is_Match_def)
next
  assume h: "match_target (ruleMatcher t) (TargetAddr req) = Some (lookup, [], matched)
      \<and> i < length (upstreamNames t) \<and> upstreams t (upstreamNames t ! i) = Some up"
  then have nr: "\<not> is_Request lookup"
    by (cases "TargetAddr req") (auto simp: match_target_def is_Request_def)
  from h nr show "filter is_Request (fst (processOneRequest t req ds i))
        = [CallRequest (upstreamNames t ! i) (TargetAddr req)]"
    by (auto simp: processOneRequest_def select_and_connect_def Intn_def is_Request_def Let_def
        split: sum.splits prod.splits)
next
  assume h: "match_target (ruleMatcher t) (TargetAddr req) = Some (lookup, [], matched)
      \<and> CallRequest u a \<in> set (fst (processOneRequest t req ds rnd))"
  then have nr: "lookup \<noteq> CallRequest u a"
    by (cases "TargetAddr req") (auto simp: match_target_def)
  from h nr show "u \<in> set (upstreamNames t)"
    by (auto simp: processOneRequest_def select_and_connect_def Intn_def Let_def
        split: sum.splits prod.splits option.splits if_splits)
next
  assume h: "match_target (ruleMatcher t) (TargetAddr req) = Some (lookup, ruleName, [])
      \<and> ruleName \<noteq> []"
  then have nr: "\<not> is_Request lookup"
    by (cases "TargetAddr req") (auto simp: match_target_def is_Request_def)
  from h show "processOneRequest t req ds rnd =
        ([lookup, Log ''request rejected by rule'',
          CallFail \<lparr>Error = None, ErrType = ProxyNotAllowed\<rparr>], Returns)"
    by (simp add: processOneRequest_def)
  with nr show "filter is_Request (fst (processOneRequest t req ds rnd)) = []"
    by (simp add: is_Request_def)
qed

text \<open>An address of another kind, a domain target with the second upstream drawn, and
  an IP target denied by the rule \<open>block\<close>.\<close>

theorem upstream_selection_witness:
  "processOneRequest sample_app \<lparr>TargetAddr = OtherAddr ''unix''\<rparr> ''socks'' 0 =
     ([Log ''unknown target address'', CallFail \<lparr>Error = None, ErrType = ProxyAddrUnsupported\<rparr>],
      Returns)
   \<and> filter is_Request
        (fst (processOneRequest sample_app \<lparr>TargetAddr = DomainNameAddr ''example.com'' 80\<rparr> ''socks'' 1))
       = [CallRequest ''u2'' (DomainNameAddr ''example.com'' 80)]
   \<and> ''u2'' \<in> set (upstreamNames sample_app)
   \<and> processOneRequest sample_app \<lparr>TargetAddr = TCP4Addr [10, 0, 0, 1] 22\<rparr> ''socks'' 0 =
       ([CallMatchIP [10, 0, 0, 1], Log ''request rejected by rule'',
         CallFail \<lparr>Error = None, ErrType = ProxyNotAllowed\<rparr>], Returns)"
proof -
  let ?dom = "\<lparr>TargetAddr = DomainNameAddr ''example.com'' 80\<rparr>"
  have m: "match_target (ruleMatcher sample_app) (TargetAddr ?dom)
           = Some (CallMatchDomain ''example.com'', [], [])"
    by (simp add: match_target_def sample_app_def)
  have u: "upstreams sample_app (upstreamNames sample_app ! 1) = Some (\<lambda>target. Inr (''conn'', target))"
    by (simp add: sample_app_def)
  have l: "(1::nat) < length (upstreamNames sample_app)" by (simp add: sample_app_def)
  have n: "upstreamNames sample_app ! 1 = ''u2''" by (simp add: sample_app_def)
  have w2: "filter is_Request (fst (processOneRequest sample_app ?dom ''socks'' 1))
       = [CallRequest ''u2'' (DomainNameAddr ''example.com'' 80)]"
    using upstream_selection [where t = sample_app and req = ?dom and i = 1 and ds = "''socks''"
        and lookup = "CallMatchDomain ''example.com''" and matched = "[]"
        and up = "\<lambda>target. Inr (''conn'', target)"] m u l n
    by simp
  have "CallRequest ''u2'' (DomainNameAddr ''example.com'' 80)
        \<in> set (fst (processOneRequest sample_app ?dom ''socks'' 1))"
  proof -
    have "CallRequest ''u2'' (DomainNameAddr ''example.com'' 80)
          \<in> set (filter is_Request (fst (processOneRequest sample_app ?dom ''socks'' 1)))"
      unfolding w2 by simp
    then show ?thesis by simp
  qed
  then have w3: "''u2'' \<in> set (upstreamNames sample_app)"
    using upstream_selection [where t = sample_app and req = ?dom and rnd = 1 and ds = "''socks''"
        and lookup = "CallMatchDomain ''example.com''" and matched = "[]" and u = "''u2''"
        and a = "DomainNameAddr ''example.com'' 80"] m
    by simp
  have w1: "processOneRequest sample_app \<lparr>TargetAddr = OtherAddr ''unix''\<rparr> ''socks'' 0 =
     ([Log ''unknown target address'', CallFail \<lparr>Error = None, ErrType = ProxyAddrUnsupported\<rparr>],
      Returns)"
    using upstream_selection [where t = sample_app and req = "\<lparr>TargetAddr = OtherAddr ''unix''\<rparr>"
        and x = "''unix''" and ds = "''socks''" and rnd = 0]
    by simp
  have m4: "match_target (ruleMatcher sample_app) (TargetAddr \<lparr>TargetAddr = TCP4Addr [10, 0, 0, 1] 22\<rparr>)
           = Some (CallMatchIP [10, 0, 0, 1], ''block'', [])"
    by (simp add: match_target_def sample_app_def)
  have w4: "processOneRequest sample_app \<lparr>TargetAddr = TCP4Addr [10, 0, 0, 1] 22\<rparr> ''socks'' 0 =
       ([CallMatchIP [10, 0, 0, 1], Log ''request rejected by rule'',
         CallFail \<lparr>Error = None, ErrType = ProxyNotAllowed\<rparr>], Returns)"
    using upstream_selection [where t = sample_app
        and req = "\<lparr>TargetAddr = TCP4Addr [10, 0, 0, 1] 22\<rparr>" and ds = "''socks''" and rnd = 0
        and lookup = "CallMatchIP [10, 0, 0, 1]" and ruleName = "''block''"] m4
    by simp
  from w1 w2 w3 w4 show ?thesis by blast
qed

lemma select_and_connect_Request:
  assumes "CallRequest u a \<in> set (fst (select_and_connect t req ds rnd lookup rn cands))"
      and "lookup \<noteq> CallRequest u a"
  shows "cands \<noteq> [] \<and> u = cands ! (rnd mod length cands) \<and> a = TargetAddr req"
proof (cases "cands = []")
  case True
  then show ?thesis using assms by (simp add: select_and_connect_def Intn_def)
next
  case False
  show ?thesis
  proof (cases "upstreams t (cands ! (rnd mod length cands))")
    case None
    then show ?thesis using assms False by (simp add: select_and_connect_def Intn_def)
  next
    case (Some up)
    then show ?thesis using assms False
      by (cases "up (TargetAddr req)")
         (auto simp: select_and_connect_def Intn_def Let_def split: prod.splits)
  qed
qed

lemma select_and_connect_fail:
  assumes "cands \<noteq> []" and "upstreams t (cands ! (rnd mod length cands)) = Some up"
      and "up (TargetAddr req) = Inl pErr"
  shows "select_and_connect t req ds rnd lookup rn cands =
           ([lookup, Log ''upstream selected'',
             CallRequest (cands ! (rnd mod length cands)) (TargetAddr req),
             Log ''connection failed'', CallFail pErr,
             CallAddError (cands ! (rnd mod length cands))], Returns)"
  using assms by (simp add: select_and_connect_def Intn_def Let_def)

text \<open>
  Claim C8. When the \<^verbatim>\<open>Request\<close> of the selected upstream returns a \<^verbatim>\<open>ProxyError\<close>,
  \<^verbatim>\<open>processOneRequest\<close> returns after calling \<^verbatim>\<open>Fail\<close> with that very error and
  \<^verbatim>\<open>AddError\<close> once, for the selected upstream; it calls neither \<^verbatim>\<open>Success\<close> nor
  \<^verbatim>\<open>OpenTunnelMonitor\<close>.
\<close>

theorem connect_failure:
  "CallRequest u a \<in> set (fst (processOneRequest t req ds rnd))
   \<and> upstreams t u = Some up \<and> up a = Inl pErr \<longrightarrow>
     snd (processOneRequest t req ds rnd) = Returns
   \<and> filter is_Success_or_Fail (fst (processOneRequest t req ds rnd)) = [CallFail pErr]
   \<and> filter is_AddError (fst (processOneRequest t req ds rnd)) = [CallAddError u]
   \<and> filter is_Success (fst (processOneRequest t req ds rnd)) = []
   \<and> filter is_OpenTunnelMonitor (fst (processOneRequest t req ds rnd)) = []
   \<and> (\<exists>pre. fst (processOneRequest t req ds rnd)
         = pre @ [CallRequest u a, Log ''connection failed'', CallFail pErr, CallAddError u])"
proof (intro impI, elim conjE)
  assume rq: "CallRequest u a \<in> set (fst (processOneRequest t req ds rnd))"
     and up: "upstreams t u = Some up" and er: "up a = Inl pErr"
  from rq obtain lookup ruleName matched
    where m: "match_target (ruleMatcher t) (TargetAddr req) = Some (lookup, ruleName, matched)"
    by (cases "match_target (ruleMatcher t) (TargetAddr req)") (auto simp: processOneRequest_def)
  have k: "\<not> is_Success_or_Fail lookup \<and> \<not> is_AddError lookup \<and> \<not> is_Success lookup
           \<and> \<not> is_OpenTunnelMonitor lookup \<and> lookup \<noteq> CallRequest u a"
    using m
    by (cases "TargetAddr req")
       (auto simp: match_target_def is_Success_or_Fail_def is_AddError_def is_Success_def
          is_OpenTunnelMonitor_def)
  let ?c = "if ruleName = [] then upstreamNames t else matched"
  have eq: "processOneRequest t req ds rnd = select_and_connect t req ds rnd lookup ruleName ?c"
    using rq m k by (auto simp: processOneRequest_def split: if_splits)
  from select_and_connect_Request [OF rq [unfolded eq]] k
  have s: "?c \<noteq> []" "u = ?c ! (rnd mod length ?c)" "a = TargetAddr req"
    by simp_all
  have tr: "processOneRequest t req ds rnd =
           ([lookup, Log ''upstream selected'', CallRequest u a,
             Log ''connection failed'', CallFail pErr, CallAddError u], Returns)"
    unfolding eq using select_and_connect_fail [OF s(1) up [unfolded s(2)] er [unfolded s(3)]] s
    by simp
  have "fst (processOneRequest t req ds rnd)
         = [lookup, Log ''upstream selected''] @
           [CallRequest u a, Log ''connection failed'', CallFail pErr, CallAddError u]"
    by (simp add: tr)
  then have "\<exists>pre. fst (processOneRequest t req ds rnd)
         = pre @ [CallRequest u a, Log ''connection failed'', CallFail pErr, CallAddError u]"
    by blast
  then show "snd (processOneRequest t req ds rnd) = Returns
   \<and> filter is_Success_or_Fail (fst (processOneRequest t req ds rnd)) = [CallFail pErr]
   \<and> filter is_AddError (fst (processOneRequest t req ds rnd)) = [CallAddError u]
   \<and> filter is_Success (fst (processOneRequest t req ds rnd)) = []
   \<and> filter is_OpenTunnelMonitor (fst (processOneRequest t req ds rnd)) = []
   \<and> (\<exists>pre. fst (processOneRequest t req ds rnd)
         = pre @ [CallRequest u a, Log ''connection failed'', CallFail pErr, CallAddError u])"
    using k by (simp add: tr is_Success_or_Fail_def is_AddError_def is_Success_def
        is_OpenTunnelMonitor_def)
qed

text \<open>The first upstream of the sample application times out.\<close>

theorem connect_failure_witness:
  "CallRequest ''u1'' (DomainNameAddr ''example.com'' 80)
      \<in> set (fst (processOneRequest sample_app \<lparr>TargetAddr = DomainNameAddr ''example.com'' 80\<rparr> ''socks'' 0))
   \<and> filter is_Success_or_Fail
        (fst (processOneRequest sample_app \<lparr>TargetAddr = DomainNameAddr ''example.com'' 80\<rparr> ''socks'' 0))
       = [CallFail \<lparr>Error = Some ''i/o timeout'', ErrType = ProxyTimeout\<rparr>]
   \<and> filter is_AddError
        (fst (processOneRequest sample_app \<lparr>TargetAddr = DomainNameAddr ''example.com'' 80\<rparr> ''socks'' 0))
       = [CallAddError ''u1'']"
proof -
  let ?dom = "\<lparr>TargetAddr = DomainNameAddr ''example.com'' 80\<rparr>"
  have e: "CallRequest ''u1'' (DomainNameAddr ''example.com'' 80)
      \<in> set (fst (processOneRequest sample_app ?dom ''socks'' 0))"
    by (simp add: dispatch_defs sample_app_def failing_upstream_def)
  have u: "upstreams sample_app ''u1'' = Some failing_upstream" by (simp add: sample_app_def)
  have f: "failing_upstream (DomainNameAddr ''example.com'' 80)
           = Inl \<lparr>Error = Some ''i/o timeout'', ErrType = ProxyTimeout\<rparr>"
    by (simp add: failing_upstream_def)
  show ?thesis
    using connect_failure [where t = sample_app and req = ?dom and ds = "''socks''" and rnd = 0
        and u = "''u1''" and a = "DomainNameAddr ''example.com'' 80" and up = failing_upstream
        and pErr = "\<lparr>Error = Some ''i/o timeout'', ErrType = ProxyTimeout\<rparr>"] e u f
    by simp
qed

subsection \<open>relayHalf\<close>







lemma relay_loop_blocked:
  "relay_loop [] dst n reps k = None"
  by (simp add: relay_loop.simps [of "[]" dst n reps k])





end
